theory Spec2Isabelle
  imports Complex_Main
begin

section \<open>The plotting routine of SPLAT: \<open>plotSpectrum\<close>\<close>

text \<open>
  This theory embeds \<open>plotSpectrum\<close> of \<open>src/splat_plot.py\<close>. The function reads a
  heterogeneous argument tuple and a keyword dictionary, normalises them into a list of
  plot groups and calls the plotting library once per group.

  Conventions of the embedding:
  \<^item> Python floats are idealised as \<open>real\<close> numbers (no rounding, no NaN).
  \<^item> Exceptions are values of type \<open>error\<close>; a function that may raise returns
    \<open>error + 'a\<close>.
  \<^item> The keyword dictionary is a record of optional entries; \<open>None\<close> means that the
    key is absent, so \<open>kwargs.get(key, d)\<close> is \<open>kwget d (key kw)\<close>. Lists that the
    routine extends in place belong to the caller, so the routine returns the record
    with these lists as they are after the call. The lists passed under different keys
    are taken to be different objects, and the record is returned only by a call that
    returns.
  \<^item> Calls into matplotlib are recorded, not executed: every \<open>ax.plot\<close> of a spectrum
    is a \<open>curve\<close>, every feature label an \<open>annotation\<close>, every \<open>ax.axis(bound)\<close> the
    field \<open>p_bound\<close>, every figure a \<open>plot\<close> with its destination. The library calls
    are taken to succeed. Pure decoration (title, axis labels, grid, font sizes, legend
    placement, telluric shading) is not recorded; none of it raises or changes a
    variable that is recorded.
\<close>

subsection \<open>Values\<close>

text \<open>
  A \<open>Spectrum\<close> object is defined outside this file; the routine reads its wavelength,
  flux and noise arrays and calls its method \<open>fluxMax()\<close>, which is kept as a field.
\<close>

record spectrum =
  wave :: "real list"
  flux :: "real list"
  noise :: "real list"
  fluxMax :: real

text \<open>
  What a positional argument, or an element of a list argument, can be. \<open>Other\<close> is any
  object that is neither a \<open>Spectrum\<close> nor a list, such as \<open>None\<close> or a number. Neither
  it nor a \<open>Spectrum\<close> can be iterated over or indexed.
\<close>

datatype pyobj =
    is_Spectrum: Spectrum (the_spectrum: spectrum)
  | is_list: PyList (items: "pyobj list")
  | Other

datatype error =
    IndexError string
  | TypeError string
  | ValueError string
  | AttributeError string
  | ZeroDivisionError
  | NameError string
  | NotModelled string

datatype color = Named string | Mapped string nat nat

datatype flag = Flag bool | Flags "bool list"

record kwargs =
  kw_nsamples :: "nat option"
  kw_multiplot :: "bool option"
  kw_multipage :: "bool option"
  kw_multilayout :: "int list option"
  kw_layout :: "int list option"
  kw_stack :: "real option"
  kw_filename :: "string option"
  kw_file :: "string option"
  kw_output :: "string option"
  kw_format :: "string option"
  kw_comparison :: "pyobj option"
  kw_colorComparison :: "color option"
  kw_linestyleComparison :: "string option"
  kw_features :: "string list option"
  kw_ldwarf :: "bool option"
  kw_mdwarf :: "bool option"
  kw_tdwarf :: "bool option"
  kw_young :: "bool option"
  kw_binary :: "bool option"
  kw_legend :: "string list option"
  kw_legends :: "string list option"
  kw_label :: "string list option"
  kw_labels :: "string list option"
  kw_zeropoint :: "real list option"
  kw_xrange :: "real list option"
  kw_yrange :: "real list option"
  kw_linestyle :: "string list option"
  kw_linestyles :: "string list option"
  kw_colors :: "color list option"
  kw_color :: "color list option"
  kw_colorScheme :: "string option"
  kw_colorMap :: "string option"
  kw_colorsUnc :: "color list option"
  kw_colorUnc :: "color list option"
  kw_showNoise :: "flag option"
  kw_noise :: "flag option"
  kw_uncertainty :: "flag option"
  kw_showZero :: "flag option"

text \<open>The call without any keyword.\<close>

definition no_kwargs :: kwargs where
  "no_kwargs = \<lparr> kw_nsamples = None, kw_multiplot = None, kw_multipage = None,
     kw_multilayout = None, kw_layout = None, kw_stack = None, kw_filename = None,
     kw_file = None, kw_output = None, kw_format = None, kw_comparison = None,
     kw_colorComparison = None, kw_linestyleComparison = None,
     kw_features = None, kw_ldwarf = None, kw_mdwarf = None, kw_tdwarf = None,
     kw_young = None, kw_binary = None, kw_legend = None, kw_legends = None,
     kw_label = None, kw_labels = None, kw_zeropoint = None, kw_xrange = None,
     kw_yrange = None, kw_linestyle = None, kw_linestyles = None, kw_colors = None,
     kw_color = None, kw_colorScheme = None, kw_colorMap = None, kw_colorsUnc = None,
     kw_colorUnc = None, kw_showNoise = None, kw_noise = None, kw_uncertainty = None,
     kw_showZero = None \<rparr>"

definition kwget :: "'a \<Rightarrow> 'a option \<Rightarrow> 'a" where
  "kwget d v = (case v of None \<Rightarrow> d | Some x \<Rightarrow> x)"

text \<open>What the routine records of its calls into the plotting library.\<close>

record curve =
  c_spec :: spectrum
  c_flx :: "real list"
  c_color :: color
  c_linestyle :: string
  c_label :: string
  c_noise :: "(real list \<times> color) option"
  c_zero :: "real list option"

datatype ftype = Band | Line

record feature =
  f_label :: string
  f_type :: ftype
  f_wavelengths :: "(real \<times> real) list"

record annotation =
  a_code :: string
  a_index :: nat
  a_label :: string
  a_type :: ftype
  a_range :: "real \<times> real"
  a_y :: real

datatype dest = OnPage nat int | ToFile string | ToScreen

record plot =
  p_curves :: "curve list"
  p_comparison :: "(color \<times> string) option"
  p_annotations :: "annotation list"
  p_bound :: "real list"
  p_dest :: dest

record outcome =
  o_plots :: "plot list"
  o_pages :: nat
  o_ignored :: "pyobj list"

definition p_spectra :: "plot \<Rightarrow> spectrum list" where
  "p_spectra p = map c_spec (p_curves p)"

subsection \<open>Library functions\<close>

text \<open>
  \<open>list.extend\<close> guarded by a length test, as the routine uses it for every
  per-spectrum option list.
\<close>

definition extend_to :: "nat \<Rightarrow> 'a \<Rightarrow> 'a list \<Rightarrow> 'a list" where
  "extend_to n d l = (if length l < n then l @ replicate (n - length l) d else l)"

text \<open>Reading \<open>l[i]\<close> for a non-negative index; \<open>what\<close> names the list in the error.\<close>

definition index :: "string \<Rightarrow> 'a list \<Rightarrow> nat \<Rightarrow> error + 'a" where
  "index what l i = (if i < length l then Inr (l ! i) else Inl (IndexError what))"

text \<open>Reading \<open>l[i]\<close> for any integer: a negative index counts from the end.\<close>

definition py_get :: "string \<Rightarrow> 'a list \<Rightarrow> int \<Rightarrow> error + 'a" where
  "py_get what l i =
     (let n = int (length l); j = (if i < 0 then n + i else i)
      in if 0 \<le> j \<and> j < n then Inr (l ! nat j) else Inl (IndexError what))"

definition bind :: "error + 'a \<Rightarrow> ('a \<Rightarrow> error + 'b) \<Rightarrow> error + 'b" where
  "bind m f = (case m of Inl e \<Rightarrow> Inl e | Inr x \<Rightarrow> f x)"

text \<open>\<open>numpy.max\<close> and \<open>numpy.nanmax\<close> of a sequence: they raise on an empty one.\<close>

fun list_max :: "real list \<Rightarrow> real" where
  "list_max [] = 0"
| "list_max (x # xs) = fold max xs x"

definition numpy_max :: "real list \<Rightarrow> error + real" where
  "numpy_max l = (if l = [] then Inl (ValueError ''zero-size array'') else Inr (list_max l))"

text \<open>\<open>numpy.arange(start, stop, step)\<close> for a positive step.\<close>

definition arange :: "real \<Rightarrow> real \<Rightarrow> real \<Rightarrow> real list" where
  "arange start stop step =
     map (\<lambda>k. start + real k * step) [0..<nat \<lceil>(stop - start) / step\<rceil>]"

text \<open>
  \<open>scipy.interpolate.interp1d(xs, ys, bounds_error=False, fill_value=0.)\<close>: the
  piecewise linear function through the points \<open>(xs[i], ys[i])\<close>, with \<open>xs\<close>
  increasing, and \<open>0\<close> outside the range of \<open>xs\<close>.
\<close>

fun interp_points :: "(real \<times> real) list \<Rightarrow> real \<Rightarrow> real" where
  "interp_points [] x = 0"
| "interp_points [(x0, y0)] x = (if x = x0 then y0 else 0)"
| "interp_points ((x0, y0) # (x1, y1) # ps) x =
     (if x < x0 then 0
      else if x \<le> x1 then y0 + (x - x0) * (y1 - y0) / (x1 - x0)
      else interp_points ((x1, y1) # ps) x)"

definition interp1d :: "real list \<Rightarrow> real list \<Rightarrow> real \<Rightarrow> real" where
  "interp1d xs ys = interp_points (zip xs ys)"

text \<open>\<open>str.lower\<close> on ASCII strings.\<close>

definition lower_char :: "char \<Rightarrow> char" where
  "lower_char c =
     (case map_of (zip ''ABCDEFGHIJKLMNOPQRSTUVWXYZ'' ''abcdefghijklmnopqrstuvwxyz'') c of
        None \<Rightarrow> c | Some d \<Rightarrow> d)"

definition lower :: "string \<Rightarrow> string" where
  "lower s = map lower_char s"

text \<open>\<open>s.split('.')\<close>.\<close>

fun split_dot :: "string \<Rightarrow> string list" where
  "split_dot [] = [[]]"
| "split_dot (c # cs) =
     (if c = CHR ''.'' then [] # split_dot cs
      else (case split_dot cs of [] \<Rightarrow> [[c]] | w # ws \<Rightarrow> (c # w) # ws))"

text \<open>\<open>'{}'.format(n)\<close> for a natural number.\<close>

fun format_nat :: "nat \<Rightarrow> string" where
  "format_nat n =
     (if n < 10 then [''0123456789'' ! n]
      else format_nat (n div 10) @ [''0123456789'' ! (n mod 10)])"

subsection \<open>The feature table and the requested features\<close>

definition hI :: "(real \<times> real) list" where
  "hI = [(1.004, 1.005), (1.093, 1.094), (1.281, 1.282), (1.944, 1.945), (2.166, 2.166)]"

definition naI :: "(real \<times> real) list" where
  "naI = [(0.8186, 0.8195), (1.136, 1.137), (2.206, 2.209)]"

definition kI :: "(real \<times> real) list" where
  "kI = [(0.7699, 0.7665), (1.169, 1.177), (1.244, 1.252)]"

definition feature_table :: "(string \<times> feature) list" where
  "feature_table =
    [(''h2o'', \<lparr>f_label = ''H$_2$O'', f_type = Band,
        f_wavelengths = [(0.92, 0.95), (1.08, 1.20), (1.325, 1.550), (1.72, 2.14)]\<rparr>),
     (''ch4'', \<lparr>f_label = ''CH$_4$'', f_type = Band,
        f_wavelengths = [(1.1, 1.24), (1.28, 1.44), (1.6, 1.76), (2.2, 2.35)]\<rparr>),
     (''co'', \<lparr>f_label = ''CO'', f_type = Band, f_wavelengths = [(2.28, 2.39)]\<rparr>),
     (''tio'', \<lparr>f_label = ''TiO'', f_type = Band,
        f_wavelengths = [(0.76, 0.80), (0.825, 0.831)]\<rparr>),
     (''vo'', \<lparr>f_label = ''VO'', f_type = Band, f_wavelengths = [(1.04, 1.08)]\<rparr>),
     (''feh'', \<lparr>f_label = ''FeH'', f_type = Band,
        f_wavelengths = [(0.86, 0.90), (0.98, 1.03), (1.19, 1.25), (1.57, 1.64)]\<rparr>),
     (''h2'', \<lparr>f_label = ''H$_2$'', f_type = Band, f_wavelengths = [(2.05, 2.6)]\<rparr>),
     (''sb'', \<lparr>f_label = ''*'', f_type = Band, f_wavelengths = [(1.6, 1.64)]\<rparr>),
     (''h'', \<lparr>f_label = ''H I'', f_type = Line, f_wavelengths = hI\<rparr>),
     (''hi'', \<lparr>f_label = ''H I'', f_type = Line, f_wavelengths = hI\<rparr>),
     (''h1'', \<lparr>f_label = ''H I'', f_type = Line, f_wavelengths = hI\<rparr>),
     (''na'', \<lparr>f_label = ''Na I'', f_type = Line, f_wavelengths = naI\<rparr>),
     (''nai'', \<lparr>f_label = ''Na I'', f_type = Line, f_wavelengths = naI\<rparr>),
     (''na1'', \<lparr>f_label = ''Na I'', f_type = Line, f_wavelengths = naI\<rparr>),
     (''k'', \<lparr>f_label = ''K I'', f_type = Line, f_wavelengths = kI\<rparr>),
     (''ki'', \<lparr>f_label = ''K I'', f_type = Line, f_wavelengths = kI\<rparr>),
     (''k1'', \<lparr>f_label = ''K I'', f_type = Line, f_wavelengths = kI\<rparr>)]"

definition feature_labels :: "string \<Rightarrow> feature option" where
  "feature_labels = map_of feature_table"

text \<open>The codes that the class-membership flags append, in the order of the source.\<close>

definition preset_features :: "kwargs \<Rightarrow> string list" where
  "preset_features kw =
     (if kwget False (kw_ldwarf kw) \<or> kwget False (kw_mdwarf kw)
      then [''k'', ''na'', ''feh'', ''tio'', ''co'', ''h2o'', ''h2''] else [])
     @ (if kwget False (kw_tdwarf kw) then [''k'', ''ch4'', ''h2o'', ''h2''] else [])
     @ (if kwget False (kw_young kw) then [''vo''] else [])
     @ (if kwget False (kw_binary kw) then [''sb''] else [])"

text \<open>
  \<open>features = kwargs.get('features', [])\<close> followed by the \<open>extend\<close> calls: the list
  of the caller, when there is one, is extended in place.
\<close>

definition request_list :: "kwargs \<Rightarrow> string list" where
  "request_list kw = kwget [] (kw_features kw) @ preset_features kw"

definition extend_features :: "kwargs \<Rightarrow> kwargs" where
  "extend_features kw =
     (case kw_features kw of None \<Rightarrow> kw
      | Some l \<Rightarrow> kw\<lparr>kw_features := Some (l @ preset_features kw)\<rparr>)"

text \<open>The loop \<open>for i in features: if i not in fea: fea.append(i)\<close>.\<close>

fun clean_repeats :: "string list \<Rightarrow> string list \<Rightarrow> string list" where
  "clean_repeats fea [] = fea"
| "clean_repeats fea (i # rest) =
     clean_repeats (if i \<in> set fea then fea else fea @ [i]) rest"

subsection \<open>Normalising the input (lines 184 to 223)\<close>

text \<open>
  The positional arguments. \<open>None\<close> is the early return of a call without arguments;
  otherwise the result is \<open>splist\<close> together with the objects that were reported and
  ignored.
\<close>

definition read_args :: "pyobj list \<Rightarrow> (pyobj list \<times> pyobj list) option" where
  "read_args args =
     (if length args < 1 then None
      else if length args = 1 \<and> is_list (args ! 0) then Some (items (args ! 0), [])
      else Some (filter (\<lambda>a. is_Spectrum a \<or> is_list a) args,
                 filter (\<lambda>a. \<not> (is_Spectrum a \<or> is_list a)) args))"

text \<open>\<open>[item for sublist in splist for item in sublist]\<close>.\<close>

fun flatten :: "pyobj list \<Rightarrow> error + pyobj list" where
  "flatten [] = Inr []"
| "flatten (sublist # rest) =
     (if is_list sublist
      then bind (flatten rest) (\<lambda>l. Inr (items sublist @ l))
      else Inl (TypeError ''object is not iterable''))"

definition setup_multiplot :: "bool \<Rightarrow> pyobj list \<Rightarrow> error + (bool \<times> pyobj list)" where
  "setup_multiplot multiplot0 splist =
     (let multiplot =
        (if length splist = 1 then False
         else if length splist > 1 \<and> is_list (splist ! 0) then True
         else multiplot0)
      in if splist = [] then Inl (IndexError ''splist'')
         else if multiplot \<and> is_Spectrum (splist ! 0)
           then Inr (multiplot, map (\<lambda>s. PyList [s]) splist)
         else if \<not> multiplot \<and> is_Spectrum (splist ! 0)
           then Inr (multiplot, [PyList splist])
         else if \<not> multiplot \<and> is_list (splist ! 0) \<and> length splist > 1
           then bind (flatten splist) (\<lambda>l. Inr (multiplot, [PyList l]))
         else Inr (multiplot, splist))"

subsection \<open>The legend (lines 225 to 231)\<close>

definition get_legend :: "kwargs \<Rightarrow> nat \<Rightarrow> string list" where
  "get_legend kw tot_sp =
     kwget (kwget (kwget (kwget (replicate tot_sp []) (kw_legend kw)) (kw_legends kw))
       (kw_label kw)) (kw_labels kw)"

definition put_legend :: "kwargs \<Rightarrow> string list \<Rightarrow> kwargs" where
  "put_legend kw l =
     (if kw_labels kw \<noteq> None then kw\<lparr>kw_labels := Some l\<rparr>
      else if kw_label kw \<noteq> None then kw\<lparr>kw_label := Some l\<rparr>
      else if kw_legends kw \<noteq> None then kw\<lparr>kw_legends := Some l\<rparr>
      else if kw_legend kw \<noteq> None then kw\<lparr>kw_legend := Some l\<rparr>
      else kw)"

definition prep_legend :: "kwargs \<Rightarrow> nat \<Rightarrow> kwargs \<times> string list" where
  "prep_legend kw tot_sp =
     (let legend = extend_to tot_sp [] (get_legend kw tot_sp)
      in (put_legend kw legend, legend))"

subsection \<open>Output set-up (lines 126 to 144 and 239 to 249)\<close>

text \<open>What stays fixed during the loop over the plot groups.\<close>

record env =
  e_features :: "string list"
  e_legend :: "string list"
  e_multipage :: bool
  e_multilayout :: "int list"
  e_nplot :: int
  e_filebase :: string
  e_files :: "string list"
  e_stack :: real
  e_nsamples :: nat
  e_comparison :: bool

text \<open>
  The counters of the loop, and \<open>fig\<close>: in multipage mode a list with one entry per
  page, \<open>False\<close> while the entry is still the integer that \<open>range(numpages)\<close> put
  there and \<open>True\<close> once a figure has been stored in it.
\<close>

record lstate =
  pg_n :: nat
  lg_n :: nat
  fig :: "bool list"

definition get_filename :: "kwargs \<Rightarrow> string" where
  "get_filename kw = kwget (kwget (kwget [] (kw_filename kw)) (kw_file kw)) (kw_output kw)"

definition get_filebase :: "kwargs \<Rightarrow> string" where
  "get_filebase kw = hd (split_dot (get_filename kw))"

definition get_filetype :: "kwargs \<Rightarrow> string" where
  "get_filetype kw =
     (let filetype = kwget (last (split_dot (get_filename kw))) (kw_format kw)
      in if filetype = [] then ''pdf'' else filetype)"

definition get_multilayout :: "kwargs \<Rightarrow> int list" where
  "get_multilayout kw = kwget (kwget [1, 1] (kw_multilayout kw)) (kw_layout kw)"

text \<open>
  Lines 240 to 247: the number of tiles of a page and the number of pages. Python 2
  divides integers with floor, as \<open>div\<close> does on \<open>int\<close>.
\<close>

definition setup_pages :: "int list \<Rightarrow> nat \<Rightarrow> error + (int \<times> int)" where
  "setup_pages multilayout len =
     bind (index ''multilayout'' multilayout 0) (\<lambda>r.
     bind (index ''multilayout'' multilayout 1) (\<lambda>c.
       let nplot = r * c in
       if nplot = 0 then Inl ZeroDivisionError
       else let numpages = int len div nplot + 1
            in Inr (nplot, if int len mod nplot = 0 then numpages - 1 else numpages)))"

text \<open>The set-up applies in multipage mode only.\<close>

definition page_setup :: "kwargs \<Rightarrow> nat \<Rightarrow> error + (int \<times> int)" where
  "page_setup kw len =
     (if kwget False (kw_multipage kw) then setup_pages (get_multilayout kw) len
      else Inr (0, 0))"

definition make_files :: "string \<Rightarrow> string \<Rightarrow> nat \<Rightarrow> string list" where
  "make_files filebase filetype len =
     map (\<lambda>i. filebase @ format_nat (i + 1) @ ''.'' @ filetype) [0..<len]"

subsection \<open>Resolving the parameters of one plot group (lines 259 to 315)\<close>

text \<open>
  Lines 259 and 272: \<open>sp[0]\<close> must be a \<open>Spectrum\<close>, and \<open>fluxMax\<close> is called on
  every element of the group.
\<close>

definition group_spectra :: "pyobj \<Rightarrow> error + spectrum list" where
  "group_spectra sp =
     (if \<not> is_list sp then Inl (TypeError ''object does not support indexing'')
      else if items sp = [] then Inl (IndexError ''sp'')
      else if \<not> is_Spectrum (items sp ! 0) then Inl (ValueError ''wrong format'')
      else if list_all is_Spectrum (items sp) then Inr (map the_spectrum (items sp))
      else Inl (AttributeError ''fluxMax''))"

text \<open>
  Lines 270 to 274. \<open>bound\<close> is the list of the caller when \<open>xrange\<close> is given, and a
  new list otherwise; the default of \<open>yrange\<close> is computed even when the key is present.
\<close>

definition resolve_bound :: "kwargs \<Rightarrow> spectrum list \<Rightarrow> real list \<Rightarrow> error + real list" where
  "resolve_bound kw sp zeropoint =
     bind (numpy_max (map fluxMax sp)) (\<lambda>ymax.
     bind (numpy_max zeropoint) (\<lambda>zmax.
       Inr (kwget [0.85, 2.42] (kw_xrange kw)
            @ kwget (map (\<lambda>x. x * (ymax + zmax)) [- 0.02, 1.2]) (kw_yrange kw))))"

text \<open>The list behind \<open>bound\<close> belongs to the caller when \<open>xrange\<close> was given.\<close>

definition alias_bound :: "kwargs \<Rightarrow> real list \<Rightarrow> kwargs" where
  "alias_bound kw bound =
     (case kw_xrange kw of None \<Rightarrow> kw | Some _ \<Rightarrow> kw\<lparr>kw_xrange := Some bound\<rparr>)"

definition resolve_linestyle :: "kwargs \<Rightarrow> nat \<Rightarrow> kwargs \<times> string list" where
  "resolve_linestyle kw n =
     (let linestyle = extend_to n ''steps''
            (kwget (kwget (replicate n ''steps'') (kw_linestyle kw)) (kw_linestyles kw))
      in (if kw_linestyles kw \<noteq> None then kw\<lparr>kw_linestyles := Some linestyle\<rparr>
          else if kw_linestyle kw \<noteq> None then kw\<lparr>kw_linestyle := Some linestyle\<rparr>
          else kw, linestyle))"

text \<open>
  Lines 282 to 294. With a colour scheme the first \<open>n\<close> entries are overwritten by
  \<open>scalarMap.to_rgba(values[i])\<close>, recorded as \<open>Mapped scheme i (n - 1)\<close>.
\<close>

definition put_colors :: "kwargs \<Rightarrow> color list \<Rightarrow> kwargs" where
  "put_colors kw l =
     (if kw_color kw \<noteq> None then kw\<lparr>kw_color := Some l\<rparr>
      else if kw_colors kw \<noteq> None then kw\<lparr>kw_colors := Some l\<rparr>
      else kw)"

definition resolve_colors :: "kwargs \<Rightarrow> nat \<Rightarrow> error + (kwargs \<times> color list)" where
  "resolve_colors kw n =
     (let colors = extend_to n (Named ''k'')
            (kwget (kwget (replicate n (Named ''k'')) (kw_colors kw)) (kw_color kw))
      in case (case kw_colorMap kw of None \<Rightarrow> kw_colorScheme kw | Some m \<Rightarrow> Some m) of
           None \<Rightarrow> Inr (put_colors kw colors, colors)
         | Some colorScheme \<Rightarrow>
             if n = 0 then Inl (IndexError ''values'')
             else let colors' = map (\<lambda>i. Mapped colorScheme i (n - 1)) [0..<n] @ drop n colors
                  in Inr (put_colors kw colors', colors'))"

text \<open>
  Lines 295 to 298. Without \<open>colorsUnc\<close> and \<open>colorUnc\<close> the list is \<open>colors\<close>
  itself, which has its full length already.
\<close>

definition resolve_colorsUnc :: "kwargs \<Rightarrow> nat \<Rightarrow> color list \<Rightarrow> kwargs \<times> color list" where
  "resolve_colorsUnc kw n colors =
     (let colorsUnc = extend_to n (Named ''k'')
            (kwget (kwget colors (kw_colorsUnc kw)) (kw_colorUnc kw))
      in (if kw_colorUnc kw \<noteq> None then kw\<lparr>kw_colorUnc := Some colorsUnc\<rparr>
          else if kw_colorsUnc kw \<noteq> None then kw\<lparr>kw_colorsUnc := Some colorsUnc\<rparr>
          else put_colors kw colorsUnc, colorsUnc))"

text \<open>
  Lines 302 to 308. A value that is not a list is wrapped into a new list; a list is
  extended in place. Either way the missing entries are \<open>True\<close>.
\<close>

definition get_showNoise :: "kwargs \<Rightarrow> nat \<Rightarrow> flag" where
  "get_showNoise kw n =
     kwget (kwget (kwget (Flags (replicate n False)) (kw_showNoise kw)) (kw_noise kw))
       (kw_uncertainty kw)"

definition put_showNoise :: "kwargs \<Rightarrow> bool list \<Rightarrow> kwargs" where
  "put_showNoise kw l =
     (if kw_uncertainty kw \<noteq> None then kw\<lparr>kw_uncertainty := Some (Flags l)\<rparr>
      else if kw_noise kw \<noteq> None then kw\<lparr>kw_noise := Some (Flags l)\<rparr>
      else if kw_showNoise kw \<noteq> None then kw\<lparr>kw_showNoise := Some (Flags l)\<rparr>
      else kw)"

definition resolve_showNoise :: "kwargs \<Rightarrow> nat \<Rightarrow> kwargs \<times> bool list" where
  "resolve_showNoise kw n =
     (case get_showNoise kw n of
        Flag b \<Rightarrow> (kw, extend_to n True [b])
      | Flags l \<Rightarrow> (put_showNoise kw (extend_to n True l), extend_to n True l))"

definition resolve_showZero :: "kwargs \<Rightarrow> nat \<Rightarrow> kwargs \<times> bool list" where
  "resolve_showZero kw n =
     (case kwget (Flags (replicate n True)) (kw_showZero kw) of
        Flag b \<Rightarrow> (kw, extend_to n True [b])
      | Flags l \<Rightarrow>
          (case kw_showZero kw of None \<Rightarrow> kw
           | Some _ \<Rightarrow> kw\<lparr>kw_showZero := Some (Flags (extend_to n True l))\<rparr>,
           extend_to n True l))"

text \<open>The per-spectrum lists of a group, as the drawing loop reads them.\<close>

record styles =
  s_zeropoint :: "real list"
  s_linestyle :: "string list"
  s_colors :: "color list"
  s_colorsUnc :: "color list"
  s_showNoise :: "bool list"
  s_showZero :: "bool list"

definition resolve_styles :: "kwargs \<Rightarrow> nat \<Rightarrow> error + (kwargs \<times> styles)" where
  "resolve_styles kw n =
     (let (kw1, linestyle) = resolve_linestyle kw n in
      bind (resolve_colors kw1 n) (\<lambda>(kw2, colors).
        let (kw3, colorsUnc) = resolve_colorsUnc kw2 n colors;
            (kw4, showNoise) = resolve_showNoise kw3 n;
            (kw5, showZero) = resolve_showZero kw4 n
        in Inr (kw5, \<lparr> s_zeropoint = kwget (replicate n 0) (kw_zeropoint kw),
                       s_linestyle = linestyle, s_colors = colors,
                       s_colorsUnc = colorsUnc, s_showNoise = showNoise,
                       s_showZero = showZero \<rparr>)))"

subsection \<open>Placing a plot (lines 319 to 338 and 440 to 448)\<close>

definition place :: "env \<Rightarrow> lstate \<Rightarrow> nat \<Rightarrow> error + (lstate \<times> dest)" where
  "place env st plts =
     (if e_multipage env then
        if e_nplot env = 0 then Inl ZeroDivisionError
        else
          let plt_n = int plts mod e_nplot env in
          bind (if plt_n = 0
                then if pg_n st < length (fig st)
                     then Inr (st\<lparr>fig := (fig st)[pg_n st := True], pg_n := pg_n st + 1\<rparr>)
                     else Inl (IndexError ''fig'')
                else Inr st) (\<lambda>st1.
          let i = int (pg_n st1) - 1;
              page = (if i < 0 then int (length (fig st1)) + i else i) in
          bind (py_get ''fig'' (fig st1) i) (\<lambda>figure.
            if figure then Inr (st1, OnPage (nat page) plt_n)
            else Inl (AttributeError ''add_subplot'')))
      else if e_filebase env \<noteq> []
        then bind (index ''files'' (e_files env) plts) (\<lambda>f. Inr (st, ToFile f))
      else Inr (st, ToScreen))"

subsection \<open>Drawing the spectra of a group (lines 340 to 371)\<close>

text \<open>
  The variables that the loop over the spectra of a group changes: \<open>bound\<close>, the
  wavelength grid \<open>wvmax\<close> with the envelope \<open>flxmax\<close> of the curves drawn so far, the
  legend counter and the curves.
\<close>

record dstate =
  d_bound :: "real list"
  d_wvmax :: "real list"
  d_flxmax :: "real list"
  d_lg_n :: nat
  d_curves :: "curve list"

text \<open>
  \<open>[i+zeropoint[ii] for i in values]\<close>: \<open>zeropoint[ii]\<close> is read once per element,
  so not at all for an empty array.
\<close>

definition shifted :: "real list \<Rightarrow> nat \<Rightarrow> real list \<Rightarrow> error + real list" where
  "shifted zeropoint ii values =
     (if values = [] then Inr []
      else bind (index ''zeropoint'' zeropoint ii) (\<lambda>z. Inr (map (\<lambda>i. i + z) values)))"

definition draw_one ::
  "env \<Rightarrow> bool \<Rightarrow> styles \<Rightarrow> nat \<Rightarrow> nat \<Rightarrow> spectrum \<Rightarrow> dstate \<Rightarrow> error + dstate" where
  "draw_one env no_yrange sty n ii a d =
     bind (shifted (s_zeropoint sty) ii (flux a)) (\<lambda>flx0.
     let flx = (if e_stack env > 0
                then map (\<lambda>f. f + (real n - real ii) * e_stack env) flx0 else flx0) in
     bind (if e_stack env > 0 \<and> no_yrange
           then bind (index ''bound'' (d_bound d) 3) (\<lambda>b3.
                  Inr ((d_bound d)[3 := b3 + e_stack env]))
           else Inr (d_bound d)) (\<lambda>bound.
     bind (index ''colors'' (s_colors sty) ii) (\<lambda>color.
     bind (index ''linestyle'' (s_linestyle sty) ii) (\<lambda>linestyle.
     bind (index ''legend'' (e_legend env) (d_lg_n d)) (\<lambda>label.
     bind (index ''showNoise'' (s_showNoise sty) ii) (\<lambda>showNoise.
     bind (if showNoise
           then bind (shifted (s_zeropoint sty) ii (noise a)) (\<lambda>ns.
                bind (index ''colorsUnc'' (s_colorsUnc sty) ii) (\<lambda>colorUnc.
                  Inr (Some (ns, colorUnc))))
           else Inr None) (\<lambda>noise_curve.
     bind (index ''showZero'' (s_showZero sty) ii) (\<lambda>showZero.
     bind (if showZero
           then bind (index ''zeropoint'' (s_zeropoint sty) ii) (\<lambda>z.
                  Inr (Some (replicate (length (flux a)) z)))
           else Inr None) (\<lambda>zero_curve.
     bind (if ii = 0
           then bind (index ''bound'' bound 0) (\<lambda>b0.
                bind (index ''bound'' bound 1) (\<lambda>b1.
                  let wvmax = arange b0 b1 0.001
                  in Inr (wvmax, map (interp1d (wave a) flx) wvmax)))
           else Inr (d_wvmax d,
                  map2 max (d_flxmax d) (map (interp1d (wave a) flx) (d_wvmax d))))
       (\<lambda>(wvmax, flxmax).
     Inr \<lparr> d_bound = bound, d_wvmax = wvmax, d_flxmax = flxmax, d_lg_n = d_lg_n d + 1,
           d_curves = d_curves d @
             [\<lparr> c_spec = a, c_flx = flx, c_color = color, c_linestyle = linestyle,
                c_label = label, c_noise = noise_curve, c_zero = zero_curve \<rparr>] \<rparr>))))))))))"

fun draw_spectra ::
  "env \<Rightarrow> bool \<Rightarrow> styles \<Rightarrow> nat \<Rightarrow> nat \<Rightarrow> spectrum list \<Rightarrow> dstate \<Rightarrow> error + dstate" where
  "draw_spectra env no_yrange sty n ii [] d = Inr d"
| "draw_spectra env no_yrange sty n ii (a # rest) d =
     bind (draw_one env no_yrange sty n ii a d)
       (draw_spectra env no_yrange sty n (Suc ii) rest)"

text \<open>Lines 375 to 378: the defaults \<open>colors[0]\<close> and \<open>linestyle[0]\<close> are always read.\<close>

definition draw_comparison ::
  "env \<Rightarrow> kwargs \<Rightarrow> styles \<Rightarrow> error + (color \<times> string) option" where
  "draw_comparison env kw sty =
     (if e_comparison env
      then bind (index ''colors'' (s_colors sty) 0) (\<lambda>c.
           bind (index ''linestyle'' (s_linestyle sty) 0) (\<lambda>l.
             Inr (Some (kwget c (kw_colorComparison kw), kwget l (kw_linestyleComparison kw)))))
      else Inr None)"

subsection \<open>Labelling the features (lines 382 to 406)\<close>

text \<open>
  One wavelength interval of one feature: it is labelled only when it lies strictly
  inside the wavelength bounds; the label is put above the envelope, and the envelope is
  raised under it.
\<close>

definition sample_points :: "nat \<Rightarrow> real \<times> real \<Rightarrow> real list" where
  "sample_points nsamples waveRng =
     map (\<lambda>k. (real k / real nsamples)
               * (max (fst waveRng) (snd waveRng) - min (fst waveRng) (snd waveRng) + 0.1)
               + min (fst waveRng) (snd waveRng) - 0.05) [0..<nsamples + 1]"

definition label_interval ::
  "nat \<Rightarrow> real list \<Rightarrow> real \<Rightarrow> real list \<Rightarrow> string \<Rightarrow> feature \<Rightarrow> nat \<Rightarrow> real \<times> real
     \<Rightarrow> real list \<times> annotation list \<Rightarrow> real list \<times> annotation list" where
  "label_interval nsamples bound yoff wvmax ftr ft ii waveRng acc =
     (if min (fst waveRng) (snd waveRng) > bound ! 0 \<and>
         max (fst waveRng) (snd waveRng) < bound ! 1
      then
        let flxmax = fst acc;
            y = list_max (map (interp1d wvmax flxmax) (sample_points nsamples waveRng))
                + 0.5 * yoff;
            overlap = (if f_type ft = Band then waveRng
                       else (fst waveRng - 0.05, snd waveRng + 0.05));
            foff = map (\<lambda>w. if w \<ge> fst overlap \<and> w \<le> snd overlap then y + 3 * yoff else 0)
                     wvmax
        in (map2 max flxmax foff,
            snd acc @ [\<lparr> a_code = ftr, a_index = ii, a_label = f_label ft,
                         a_type = f_type ft, a_range = waveRng, a_y = y \<rparr>])
      else acc)"

fun label_intervals ::
  "nat \<Rightarrow> real list \<Rightarrow> real \<Rightarrow> real list \<Rightarrow> string \<Rightarrow> feature \<Rightarrow> nat \<Rightarrow> (real \<times> real) list
     \<Rightarrow> real list \<times> annotation list \<Rightarrow> real list \<times> annotation list" where
  "label_intervals nsamples bound yoff wvmax ftr ft ii [] acc = acc"
| "label_intervals nsamples bound yoff wvmax ftr ft ii (waveRng # rest) acc =
     label_intervals nsamples bound yoff wvmax ftr ft (Suc ii) rest
       (label_interval nsamples bound yoff wvmax ftr ft ii waveRng acc)"

fun label_features ::
  "nat \<Rightarrow> real list \<Rightarrow> real \<Rightarrow> real list \<Rightarrow> string list
     \<Rightarrow> real list \<times> annotation list \<Rightarrow> real list \<times> annotation list" where
  "label_features nsamples bound yoff wvmax [] acc = acc"
| "label_features nsamples bound yoff wvmax (ftr # rest) acc =
     label_features nsamples bound yoff wvmax rest
       (case feature_labels (lower ftr) of
          None \<Rightarrow> acc
        | Some ft \<Rightarrow>
            label_intervals nsamples bound yoff wvmax (lower ftr) ft 0 (f_wavelengths ft) acc)"

subsection \<open>One plot group, and the loop over the groups (lines 257 to 448)\<close>

text \<open>
  The body of the loop for the group \<open>sp\<close> with number \<open>plts\<close>. At line 382 \<open>bound\<close>
  must have four entries, so \<open>bound[0]\<close> and \<open>bound[1]\<close> exist when the features are
  labelled. The font size of line 383 reads both entries of \<open>multilayout\<close>. Line 410
  replaces the upper flux bound by the top of the envelope.
\<close>

definition plot_group ::
  "env \<Rightarrow> nat \<Rightarrow> pyobj \<Rightarrow> kwargs \<times> lstate \<Rightarrow> error + ((kwargs \<times> lstate) \<times> plot)" where
  "plot_group env plts sp' ks =
     bind (group_spectra sp') (\<lambda>sp.
     bind (resolve_bound (fst ks) sp
             (kwget (replicate (length sp) 0) (kw_zeropoint (fst ks)))) (\<lambda>bound.
     bind (resolve_styles (fst ks) (length sp)) (\<lambda>(kw, sty).
     bind (place env (snd ks) plts) (\<lambda>(st, dest).
     bind (draw_spectra env (kw_yrange kw = None) sty (length sp) 0 sp
             \<lparr> d_bound = bound, d_wvmax = [], d_flxmax = [], d_lg_n = lg_n st,
               d_curves = [] \<rparr>) (\<lambda>d.
     bind (draw_comparison env kw sty) (\<lambda>comparison.
     bind (index ''bound'' (d_bound d) 3) (\<lambda>b3.
     bind (index ''bound'' (d_bound d) 2) (\<lambda>b2.
     bind (index ''multilayout'' (e_multilayout env) 0) (\<lambda>_.
     bind (index ''multilayout'' (e_multilayout env) 1) (\<lambda>_.
     let yoff = 0.02 * (b3 - b2);
         labelled = label_features (e_nsamples env) (d_bound d) yoff (d_wvmax d)
                      (e_features env) (d_flxmax d, [])
     in
     bind (numpy_max (fst labelled)) (\<lambda>top.
     let bound' = (d_bound d)[3 := top + 2 * yoff] in
     Inr ((alias_bound kw bound', st\<lparr>lg_n := d_lg_n d\<rparr>),
          \<lparr> p_curves = d_curves d, p_comparison = comparison,
            p_annotations = snd labelled, p_bound = bound', p_dest = dest \<rparr>))))))))))))"

fun plot_loop ::
  "env \<Rightarrow> nat \<Rightarrow> pyobj list \<Rightarrow> kwargs \<times> lstate \<Rightarrow> error + ((kwargs \<times> lstate) \<times> plot list)" where
  "plot_loop env plts [] ks = Inr (ks, [])"
| "plot_loop env plts (sp # rest) ks =
     bind (plot_group env plts sp ks) (\<lambda>(ks1, p).
     bind (plot_loop env (Suc plts) rest ks1) (\<lambda>(ks2, ps).
       Inr (ks2, p # ps)))"

text \<open>
  Lines 452 to 460: every page is saved through \<open>pdf_pages\<close>, a variable that exists
  only when the file type is \<open>pdf\<close>. The result is the number of pages saved.
\<close>

fun save_pages :: "bool \<Rightarrow> bool list \<Rightarrow> error + nat" where
  "save_pages pdf [] = Inr 0"
| "save_pages pdf (figure # rest) =
     (if \<not> figure then Inl (AttributeError ''tight_layout'')
      else if \<not> pdf then Inl (NameError ''pdf_pages'')
      else bind (save_pages pdf rest) (\<lambda>k. Inr (Suc k)))"

definition save_document :: "kwargs \<Rightarrow> bool list \<Rightarrow> error + nat" where
  "save_document kw figures =
     (if kwget False (kw_multipage kw) then save_pages (get_filetype kw = ''pdf'') figures
      else Inr 0)"

subsection \<open>The routine\<close>

text \<open>
  The result of a call that returns is what was plotted, together with the keyword
  record holding the lists of the caller as the call leaves them. A call without
  arguments prints a message and returns without plotting. A sampling number
  \<open>nsamples = 0\<close> makes the label positions NaN and is outside this model.
\<close>

definition make_env :: "kwargs \<Rightarrow> string list \<Rightarrow> int \<Rightarrow> nat \<Rightarrow> env" where
  "make_env kw legend nplot len =
     \<lparr> e_features = clean_repeats [] (request_list kw),
       e_legend = legend,
       e_multipage = kwget False (kw_multipage kw),
       e_multilayout = get_multilayout kw,
       e_nplot = nplot,
       e_filebase = get_filebase kw,
       e_files = make_files (get_filebase kw) (get_filetype kw) len,
       e_stack = kwget 0 (kw_stack kw),
       e_nsamples = kwget 1000 (kw_nsamples kw),
       e_comparison = (case kw_comparison kw of None \<Rightarrow> False | Some c \<Rightarrow> is_Spectrum c) \<rparr>"

definition plotSpectrum :: "pyobj list \<Rightarrow> kwargs \<Rightarrow> error + (outcome \<times> kwargs)" where
  "plotSpectrum args kw =
     (if kwget 1000 (kw_nsamples kw) = 0 then Inl (NotModelled ''nsamples = 0'')
      else case read_args args of
        None \<Rightarrow> Inr (\<lparr> o_plots = [], o_pages = 0, o_ignored = [] \<rparr>, extend_features kw)
      | Some (splist0, ignored) \<Rightarrow>
          bind (setup_multiplot (kwget False (kw_multiplot kw)) splist0) (\<lambda>(multiplot, splist).
          bind (flatten splist) (\<lambda>spectra.
          bind (page_setup kw (length splist)) (\<lambda>(nplot, numpages).
          bind (plot_loop
                  (make_env kw (snd (prep_legend kw (length spectra))) nplot (length splist))
                  0 splist
                  (fst (prep_legend (extend_features kw) (length spectra)),
                   \<lparr> pg_n = 0, lg_n = 0, fig = replicate (nat numpages) False \<rparr>))
            (\<lambda>(ks, plots).
          bind (save_document kw (fig (snd ks))) (\<lambda>pages.
            Inr (\<lparr> o_plots = plots, o_pages = pages, o_ignored = ignored \<rparr>, fst ks)))))))"

subsection \<open>The option lists of the caller\<close>

text \<open>
  The list that the caller passed for the line styles, the colours and the legend: the
  value of the chain of \<open>kwargs.get\<close> calls of lines 275 and 276, 282 and 283, 226 to 229
  when one of the keys is present (the last key of the chain wins), and no entry at all
  otherwise.
\<close>

definition given_linestyle :: "kwargs \<Rightarrow> string list" where
  "given_linestyle kw = kwget (kwget [] (kw_linestyle kw)) (kw_linestyles kw)"

definition given_colors :: "kwargs \<Rightarrow> color list" where
  "given_colors kw = kwget (kwget [] (kw_colors kw)) (kw_color kw)"

definition given_legend :: "kwargs \<Rightarrow> string list" where
  "given_legend kw =
     kwget (kwget (kwget (kwget [] (kw_legend kw)) (kw_legends kw)) (kw_label kw)) (kw_labels kw)"

subsection \<open>Example inputs\<close>

text \<open>A spectrum with wavelength range \<open>[1.0, 1.3]\<close>, constant flux and \<open>fluxMax = 1\<close>.\<close>

definition s0 :: spectrum where
  "s0 = \<lparr> wave = [1.0, 1.3], flux = [1, 1], noise = [0, 0], fluxMax = 1 \<rparr>"

text \<open>
  \<open>plotSpectrum(sp, features=['VO'], young=True, xrange=[1.03, 1.09], nsamples=2)\<close>
\<close>

definition kw_vo :: kwargs where
  "kw_vo = no_kwargs\<lparr> kw_xrange := Some [1.03, 1.09], kw_features := Some [''VO''],
             kw_young := Some True, kw_nsamples := Some 2 \<rparr>"

text \<open>
  \<open>plotSpectrum([sp, sp, sp], multiplot=True, multipage=True, layout=[1, 2],
  output='a.pdf')\<close>
\<close>

definition kw_pages :: kwargs where
  "kw_pages = no_kwargs\<lparr> kw_multiplot := Some True, kw_multipage := Some True,
                kw_layout := Some [1, 2], kw_output := Some ''a.pdf'' \<rparr>"

text \<open>
  \<open>plotSpectrum(sp, features=['vo', 'h2o'], xrange=[1.03, 1.09], nsamples=2)\<close>: the band
  \<open>vo\<close> lies inside the wavelength range, the interval \<open>[1.08, 1.20]\<close> of \<open>h2o\<close> does not.
\<close>

definition kw_bands :: kwargs where
  "kw_bands = no_kwargs\<lparr> kw_xrange := Some [1.03, 1.09], kw_features := Some [''vo'', ''h2o''],
                kw_nsamples := Some 2 \<rparr>"

text \<open>
  \<open>plotSpectrum([[sp], [sp]], features=['h'], mdwarf=True, tdwarf=True, young=True,
  binary=True, xrange=[1.003, 1.006], nsamples=2)\<close>: two plot groups.
\<close>

definition kw_grow :: kwargs where
  "kw_grow = no_kwargs\<lparr> kw_xrange := Some [1.003, 1.006], kw_features := Some [''h''],
               kw_mdwarf := Some True, kw_tdwarf := Some True, kw_young := Some True,
               kw_binary := Some True, kw_nsamples := Some 2 \<rparr>"

text \<open>
  \<open>plotSpectrum([[sp, sp], [sp]], colors=['r'], linestyle=['--'], legend=['a'])\<close>: every
  option list is shorter than the first plot group.
\<close>

definition kw_short :: kwargs where
  "kw_short = no_kwargs\<lparr> kw_colors := Some [Named ''r''], kw_linestyle := Some [''--''],
                kw_legend := Some [''a''] \<rparr>"

text \<open>
  The errors that reading a colour, a line style or a legend entry out of range raises.
\<close>

definition option_sites :: "error set" where
  "option_sites = {IndexError ''colors'', IndexError ''linestyle'', IndexError ''legend''}"

section \<open>Properties\<close>

subsection \<open>Basic facts and evaluation\<close>

lemma bind_Inr [simp]: "bind (Inr x) f = f x"
  by (simp add: bind_def)

lemma bind_Inl [simp]: "bind (Inl e) f = Inl e"
  by (simp add: bind_def)

lemma bind_weak_cong: "m = m' \<Longrightarrow> bind m f = bind m' f"
  by simp

lemma kwget_None [simp]: "kwget d None = d"
  by (simp add: kwget_def)

lemma kwget_Some [simp]: "kwget d (Some x) = x"
  by (simp add: kwget_def)

lemma bind_eq_Inr: "bind m f = Inr y \<longleftrightarrow> (\<exists>x. m = Inr x \<and> f x = Inr y)"
  by (cases m) simp_all

lemma bind_eq_Inl: "bind m f = Inl e \<longleftrightarrow> (m = Inl e \<or> (\<exists>x. m = Inr x \<and> f x = Inl e))"
  by (cases m) simp_all

text \<open>
  The equations that evaluate a call on concrete arguments. They are used together with
  the congruence rules \<open>bind_weak_cong\<close> and \<open>let_weak_cong\<close>, so that the simplifier
  evaluates a step before it enters the next one.
\<close>

lemmas eval_defs = plotSpectrum_def no_kwargs_def read_args_def setup_multiplot_def
  make_env_def prep_legend_def get_legend_def put_legend_def extend_to_def request_list_def
  preset_features_def extend_features_def get_multilayout_def get_filebase_def
  get_filetype_def get_filename_def make_files_def plot_group_def group_spectra_def
  resolve_bound_def numpy_max_def resolve_styles_def resolve_linestyle_def
  resolve_colors_def put_colors_def resolve_colorsUnc_def resolve_showNoise_def
  get_showNoise_def put_showNoise_def resolve_showZero_def place_def index_def py_get_def
  draw_one_def shifted_def arange_def interp1d_def draw_comparison_def label_interval_def
  sample_points_def feature_labels_def feature_table_def hI_def naI_def kI_def lower_def
  lower_char_def alias_bound_def setup_pages_def page_setup_def save_document_def
  upt_conv_Cons Let_def

subsection \<open>What a call that returns went through\<close>

lemma plot_group_returns:
  assumes "plot_group env plts sp' (kw0, st0) = Inr ((kw', st'), p)"
  obtains sp bound kw sty st dest d comparison b3 b2 top where
    "group_spectra sp' = Inr sp"
    "resolve_bound kw0 sp (kwget (replicate (length sp) 0) (kw_zeropoint kw0)) = Inr bound"
    "resolve_styles kw0 (length sp) = Inr (kw, sty)"
    "place env st0 plts = Inr (st, dest)"
    "draw_spectra env (kw_yrange kw = None) sty (length sp) 0 sp
       \<lparr> d_bound = bound, d_wvmax = [], d_flxmax = [], d_lg_n = lg_n st, d_curves = [] \<rparr>
     = Inr d"
    "draw_comparison env kw sty = Inr comparison"
    "index ''bound'' (d_bound d) 3 = Inr b3"
    "index ''bound'' (d_bound d) 2 = Inr b2"
    "numpy_max (fst (label_features (e_nsamples env) (d_bound d) (0.02 * (b3 - b2))
                      (d_wvmax d) (e_features env) (d_flxmax d, []))) = Inr top"
    "kw' = alias_bound kw ((d_bound d)[3 := top + 2 * (0.02 * (b3 - b2))])"
    "st' = st\<lparr>lg_n := d_lg_n d\<rparr>"
    "p = \<lparr> p_curves = d_curves d, p_comparison = comparison,
           p_annotations = snd (label_features (e_nsamples env) (d_bound d)
                                  (0.02 * (b3 - b2)) (d_wvmax d) (e_features env)
                                  (d_flxmax d, [])),
           p_bound = (d_bound d)[3 := top + 2 * (0.02 * (b3 - b2))], p_dest = dest \<rparr>"
  using assms unfolding plot_group_def
  by (auto simp: bind_eq_Inr Let_def split: prod.splits)

lemma plotSpectrum_returns:
  assumes "plotSpectrum args kw = Inr (out, kw')"
  obtains (no_args) "read_args args = None"
      "out = \<lparr> o_plots = [], o_pages = 0, o_ignored = [] \<rparr>" "kw' = extend_features kw"
  | (plots) splist0 ignored multiplot splist spectra nplot numpages st where
      "read_args args = Some (splist0, ignored)"
      "setup_multiplot (kwget False (kw_multiplot kw)) splist0 = Inr (multiplot, splist)"
      "flatten splist = Inr spectra"
      "page_setup kw (length splist) = Inr (nplot, numpages)"
      "plot_loop (make_env kw (snd (prep_legend kw (length spectra))) nplot (length splist))
         0 splist
         (fst (prep_legend (extend_features kw) (length spectra)),
          \<lparr> pg_n = 0, lg_n = 0, fig = replicate (nat numpages) False \<rparr>)
       = Inr ((kw', st), o_plots out)"
      "save_document kw (fig st) = Inr (o_pages out)"
      "o_ignored out = ignored"
  using assms unfolding plotSpectrum_def
  by (auto simp: bind_eq_Inr split: if_splits option.splits prod.splits)

text \<open>
  The rule for the loop over the groups: an invariant \<open>I\<close> of the state, indexed by
  the number of the group about to be plotted, and a property \<open>P\<close> of every plot.
\<close>

lemma plot_loop_invariant:
  assumes "plot_loop env plts gs ks = Inr (ks', ps)" and "I plts ks"
    and "\<And>i ks0 ks1 p. i < length gs \<Longrightarrow> I (plts + i) ks0 \<Longrightarrow>
           plot_group env (plts + i) (gs ! i) ks0 = Inr (ks1, p) \<Longrightarrow>
           I (plts + Suc i) ks1 \<and> P (plts + i) (gs ! i) p"
  shows "I (plts + length gs) ks' \<and> length ps = length gs \<and>
         (\<forall>i < length gs. P (plts + i) (gs ! i) (ps ! i))"
  using assms
proof (induction gs arbitrary: plts ks ps)
  case Nil
  then show ?case by simp
next
  case (Cons g gs)
  from Cons.prems(1) obtain ks1 p ps' where
    g: "plot_group env plts g ks = Inr (ks1, p)" and
    r: "plot_loop env (Suc plts) gs ks1 = Inr (ks', ps')" and
    ps: "ps = p # ps'"
    by (auto simp: bind_eq_Inr split: prod.splits)
  have step0: "I (Suc plts) ks1 \<and> P plts g p"
    using Cons.prems(3)[of 0 ks ks1 p] Cons.prems(2) g by simp
  have "I (Suc plts + length gs) ks' \<and> length ps' = length gs \<and>
        (\<forall>i < length gs. P (Suc plts + i) (gs ! i) (ps' ! i))"
  proof (rule Cons.IH[OF r])
    show "I (Suc plts) ks1" using step0 by simp
  next
    fix i ks0 ks2 q
    assume "i < length gs" "I (Suc plts + i) ks0"
      "plot_group env (Suc plts + i) (gs ! i) ks0 = Inr (ks2, q)"
    then show "I (Suc plts + Suc i) ks2 \<and> P (Suc plts + i) (gs ! i) q"
      using Cons.prems(3)[of "Suc i" ks0 ks2 q] by simp
  qed
  then show ?case using step0 ps
    by (auto simp: nth_Cons split: nat.splits)
qed

subsection \<open>Malformed elements\<close>

text \<open>
  C3, as the claim states it, fails: an element that is neither a \<open>Spectrum\<close> nor a list,
  inside a sequence of sequences, is not skipped. The check of line 259 raises
  \<open>ValueError\<close> for its group.
\<close>

theorem malformed_in_list_raises:
  "plotSpectrum [PyList [PyList [Other], PyList [Spectrum s0]]] no_kwargs
   = Inl (ValueError ''wrong format'')"
  by (simp add: eval_defs cong: bind_weak_cong let_weak_cong)

subsection \<open>Feature labels and the wavelength bounds\<close>

lemma label_interval_annotations:
  assumes "a \<in> set (snd (label_interval ns bound yoff wvmax ftr ft ii w acc))"
  shows "a \<in> set (snd acc) \<or>
         (a_code a = ftr \<and> a_index a = ii \<and> a_range a = w \<and>
          min (fst w) (snd w) > bound ! 0 \<and> max (fst w) (snd w) < bound ! 1)"
  using assms by (auto simp: label_interval_def Let_def split: if_splits)

lemma label_intervals_annotations:
  assumes "a \<in> set (snd (label_intervals ns bound yoff wvmax ftr ft ii ws acc))"
  shows "a \<in> set (snd acc) \<or>
         (a_code a = ftr \<and> ii \<le> a_index a \<and> a_index a < ii + length ws \<and>
          a_range a = ws ! (a_index a - ii) \<and>
          min (fst (a_range a)) (snd (a_range a)) > bound ! 0 \<and>
          max (fst (a_range a)) (snd (a_range a)) < bound ! 1)"
  using assms
proof (induction ws arbitrary: ii acc)
  case Nil
  then show ?case by simp
next
  case (Cons w ws)
  from Cons.prems have
    "a \<in> set (snd (label_intervals ns bound yoff wvmax ftr ft (Suc ii) ws
                     (label_interval ns bound yoff wvmax ftr ft ii w acc)))"
    by simp
  from Cons.IH[OF this] show ?case
  proof
    assume "a \<in> set (snd (label_interval ns bound yoff wvmax ftr ft ii w acc))"
    from label_interval_annotations[OF this] show ?thesis by auto
  next
    assume "a_code a = ftr \<and> Suc ii \<le> a_index a \<and> a_index a < Suc ii + length ws \<and>
          a_range a = ws ! (a_index a - Suc ii) \<and>
          min (fst (a_range a)) (snd (a_range a)) > bound ! 0 \<and>
          max (fst (a_range a)) (snd (a_range a)) < bound ! 1"
    moreover from this have "a_index a - ii = Suc (a_index a - Suc ii)" by arith
    ultimately show ?thesis by auto
  qed
qed

lemma label_features_annotations:
  assumes "a \<in> set (snd (label_features ns bound yoff wvmax fs acc))"
  shows "a \<in> set (snd acc) \<or>
         (\<exists>ft. feature_labels (a_code a) = Some ft \<and> a_index a < length (f_wavelengths ft) \<and>
               a_range a = f_wavelengths ft ! a_index a \<and>
               min (fst (a_range a)) (snd (a_range a)) > bound ! 0 \<and>
               max (fst (a_range a)) (snd (a_range a)) < bound ! 1)"
  using assms
proof (induction fs arbitrary: acc)
  case Nil
  then show ?case by simp
next
  case (Cons f fs)
  show ?case
  proof (cases "feature_labels (lower f)")
    case None
    with Cons.prems have "a \<in> set (snd (label_features ns bound yoff wvmax fs acc))" by simp
    from Cons.IH[OF this] show ?thesis .
  next
    case (Some ft)
    with Cons.prems have "a \<in> set (snd (label_features ns bound yoff wvmax fs
        (label_intervals ns bound yoff wvmax (lower f) ft 0 (f_wavelengths ft) acc)))" by simp
    from Cons.IH[OF this] show ?thesis
    proof
      assume "a \<in> set (snd (label_intervals ns bound yoff wvmax (lower f) ft 0 (f_wavelengths ft) acc))"
      from label_intervals_annotations[OF this] Some show ?thesis by auto
    qed simp
  qed
qed

lemma plot_loop_member:
  assumes "plot_loop env plts gs ks = Inr (ks', ps)" "p \<in> set ps"
  shows "\<exists>i ks0 ks1. i < length gs \<and> plot_group env (plts + i) (gs ! i) ks0 = Inr (ks1, p)"
proof -
  have "True \<and> length ps = length gs \<and>
        (\<forall>i < length gs. \<exists>ks0 ks1. plot_group env (plts + i) (gs ! i) ks0 = Inr (ks1, ps ! i))"
    by (rule plot_loop_invariant[OF assms(1), where I = "\<lambda>_ _. True"
          and P = "\<lambda>n g q. \<exists>ks0 ks1. plot_group env n g ks0 = Inr (ks1, q)"]) auto
  moreover from assms(2) obtain i where "i < length ps" "ps ! i = p"
    by (auto simp: in_set_conv_nth)
  ultimately show ?thesis by metis
qed

lemma plotSpectrum_member:
  assumes "plotSpectrum args kw = Inr (out, kw')" "p \<in> set (o_plots out)"
  shows "\<exists>env plts g ks0 ks1. plot_group env plts g ks0 = Inr (ks1, p)"
  using assms(1)
proof (cases rule: plotSpectrum_returns)
  case no_args
  with assms(2) show ?thesis by simp
next
  case (plots splist0 ignored multiplot splist spectra nplot numpages st)
  from plot_loop_member[OF plots(5) assms(2)] show ?thesis by blast
qed

lemma plot_group_annotations:
  assumes "plot_group env plts g ks0 = Inr (ks1, p)" "a \<in> set (p_annotations p)"
  shows "\<exists>ft. feature_labels (a_code a) = Some ft \<and> a_index a < length (f_wavelengths ft) \<and>
               a_range a = f_wavelengths ft ! a_index a \<and>
               min (fst (a_range a)) (snd (a_range a)) > p_bound p ! 0 \<and>
               max (fst (a_range a)) (snd (a_range a)) < p_bound p ! 1"
proof -
  obtain kw0 st0 kw' st' where ks: "ks0 = (kw0, st0)" "ks1 = (kw', st')"
    by (cases ks0, cases ks1) auto
  from assms(1)[unfolded ks] show ?thesis
  proof (rule plot_group_returns)
    fix sp bound kw sty st dest d comparison b3 b2 top
    assume p: "p = \<lparr> p_curves = d_curves d, p_comparison = comparison,
           p_annotations = snd (label_features (e_nsamples env) (d_bound d)
                                  (0.02 * (b3 - b2)) (d_wvmax d) (e_features env)
                                  (d_flxmax d, [])),
           p_bound = (d_bound d)[3 := top + 2 * (0.02 * (b3 - b2))], p_dest = dest \<rparr>"
    from assms(2) p have "a \<in> set (snd (label_features (e_nsamples env) (d_bound d)
                                  (0.02 * (b3 - b2)) (d_wvmax d) (e_features env)
                                  (d_flxmax d, [])))" by simp
    from label_features_annotations[OF this] p show ?thesis by simp
  qed
qed

text \<open>
  C8. On every plot of a call that returns, an interval of a feature of the table that
  does not lie strictly inside the wavelength bounds of the plot (its minimum is not
  above \<open>bound[0]\<close>, or its maximum is not below \<open>bound[1]\<close>) has no annotation:
  no annotation of the plot carries the code of the feature and the number of the
  interval.
\<close>

theorem feature_outside_bounds_not_annotated:
  assumes "plotSpectrum args kw = Inr (out, kw')" and "p \<in> set (o_plots out)"
    and "feature_labels code = Some ft" and "ii < length (f_wavelengths ft)"
    and "\<not> (min (fst (f_wavelengths ft ! ii)) (snd (f_wavelengths ft ! ii)) > p_bound p ! 0 \<and>
            max (fst (f_wavelengths ft ! ii)) (snd (f_wavelengths ft ! ii)) < p_bound p ! 1)"
  shows "\<not> (\<exists>a \<in> set (p_annotations p). a_code a = code \<and> a_index a = ii)"
proof
  assume "\<exists>a \<in> set (p_annotations p). a_code a = code \<and> a_index a = ii"
  then obtain a where a: "a \<in> set (p_annotations p)" "a_code a = code" "a_index a = ii"
    by blast
  from plotSpectrum_member[OF assms(1,2)] obtain env plts g ks0 ks1 where
    "plot_group env plts g ks0 = Inr (ks1, p)" by blast
  from plot_group_annotations[OF this a(1)] a(2,3) assms(3,5) show False by auto
qed

subsection \<open>The curves of a group\<close>

lemma index_eq_Inr: "index what l i = Inr x \<longleftrightarrow> i < length l \<and> x = l ! i"
  by (auto simp: index_def)

lemma index_eq_Inl: "index what l i = Inl e \<longleftrightarrow> \<not> i < length l \<and> e = IndexError what"
  by (auto simp: index_def)

lemma draw_one_returns:
  assumes "draw_one env ny sty n ii a d = Inr d'"
  obtains c where
    "d_curves d' = d_curves d @ [c]" "c_spec c = a"
    "ii < length (s_colors sty)" "c_color c = s_colors sty ! ii"
    "ii < length (s_linestyle sty)" "c_linestyle c = s_linestyle sty ! ii"
    "d_lg_n d < length (e_legend env)" "c_label c = e_legend env ! d_lg_n d"
    "ii < length (s_showNoise sty)" "(c_noise c \<noteq> None) = (s_showNoise sty ! ii)"
    "d_lg_n d' = d_lg_n d + 1"
    "length (d_bound d') = length (d_bound d)"
    "\<forall>j. j \<noteq> 3 \<longrightarrow> d_bound d' ! j = d_bound d ! j"
    "ii = 0 \<longrightarrow> d_wvmax d' = arange (d_bound d ! 0) (d_bound d ! 1) 0.001
               \<and> length (d_flxmax d') = length (d_wvmax d') \<and> 2 \<le> length (d_bound d)"
    "ii \<noteq> 0 \<longrightarrow> d_wvmax d' = d_wvmax d
               \<and> length (d_flxmax d') = min (length (d_flxmax d)) (length (d_wvmax d))"
  using assms unfolding draw_one_def Let_def
  apply (simp only: bind_eq_Inr)
  apply (elim exE conjE)
  apply (auto simp: index_eq_Inr bind_eq_Inr split: if_splits prod.splits)
  done


lemma draw_spectra_returns:
  assumes "draw_spectra env ny sty n ii rest d = Inr d'"
  shows "\<exists>cs. d_curves d' = d_curves d @ cs \<and> length cs = length rest \<and>
           (\<forall>k < length rest.
              c_spec (cs ! k) = rest ! k \<and>
              ii + k < length (s_colors sty) \<and> c_color (cs ! k) = s_colors sty ! (ii + k) \<and>
              ii + k < length (s_linestyle sty) \<and>
              c_linestyle (cs ! k) = s_linestyle sty ! (ii + k) \<and>
              d_lg_n d + k < length (e_legend env) \<and>
              c_label (cs ! k) = e_legend env ! (d_lg_n d + k) \<and>
              ii + k < length (s_showNoise sty) \<and>
              (c_noise (cs ! k) \<noteq> None) = (s_showNoise sty ! (ii + k)))"
    and "d_lg_n d' = d_lg_n d + length rest"
    and "length (d_bound d') = length (d_bound d)"
    and "\<forall>j. j \<noteq> 3 \<longrightarrow> d_bound d' ! j = d_bound d ! j"
  using assms
proof (induction rest arbitrary: ii d)
  case Nil
  { case 1 then show ?case by simp }
  { case 2 then show ?case by simp }
  { case 3 then show ?case by simp }
  { case 4 then show ?case by simp }
next
  case (Cons a rest)
  {
    case 1
    then obtain d1 where one: "draw_one env ny sty n ii a d = Inr d1"
      and more: "draw_spectra env ny sty n (Suc ii) rest d1 = Inr d'"
      by (auto simp: bind_eq_Inr)
    from Cons.IH(1)[OF more] obtain cs where cs:
      "d_curves d' = d_curves d1 @ cs" "length cs = length rest"
      "\<forall>k < length rest.
              c_spec (cs ! k) = rest ! k \<and>
              Suc ii + k < length (s_colors sty) \<and>
              c_color (cs ! k) = s_colors sty ! (Suc ii + k) \<and>
              Suc ii + k < length (s_linestyle sty) \<and>
              c_linestyle (cs ! k) = s_linestyle sty ! (Suc ii + k) \<and>
              d_lg_n d1 + k < length (e_legend env) \<and>
              c_label (cs ! k) = e_legend env ! (d_lg_n d1 + k) \<and>
              Suc ii + k < length (s_showNoise sty) \<and>
              (c_noise (cs ! k) \<noteq> None) = (s_showNoise sty ! (Suc ii + k))"
      by blast
    from one show ?case
    proof (rule draw_one_returns)
      fix c
      assume c: "d_curves d1 = d_curves d @ [c]" "c_spec c = a"
        "ii < length (s_colors sty)" "c_color c = s_colors sty ! ii"
        "ii < length (s_linestyle sty)" "c_linestyle c = s_linestyle sty ! ii"
        "d_lg_n d < length (e_legend env)" "c_label c = e_legend env ! d_lg_n d"
        "ii < length (s_showNoise sty)" "(c_noise c \<noteq> None) = (s_showNoise sty ! ii)"
        "d_lg_n d1 = d_lg_n d + 1"
      have "d_curves d' = d_curves d @ (c # cs)" using cs(1) c(1) by simp
      moreover have "length (c # cs) = length (a # rest)" using cs(2) by simp
      moreover have "\<forall>k < length (a # rest).
              c_spec ((c # cs) ! k) = (a # rest) ! k \<and>
              ii + k < length (s_colors sty) \<and>
              c_color ((c # cs) ! k) = s_colors sty ! (ii + k) \<and>
              ii + k < length (s_linestyle sty) \<and>
              c_linestyle ((c # cs) ! k) = s_linestyle sty ! (ii + k) \<and>
              d_lg_n d + k < length (e_legend env) \<and>
              c_label ((c # cs) ! k) = e_legend env ! (d_lg_n d + k) \<and>
              ii + k < length (s_showNoise sty) \<and>
              (c_noise ((c # cs) ! k) \<noteq> None) = (s_showNoise sty ! (ii + k))"
      proof (intro allI impI)
        fix k assume k: "k < length (a # rest)"
        show "c_spec ((c # cs) ! k) = (a # rest) ! k \<and>
              ii + k < length (s_colors sty) \<and>
              c_color ((c # cs) ! k) = s_colors sty ! (ii + k) \<and>
              ii + k < length (s_linestyle sty) \<and>
              c_linestyle ((c # cs) ! k) = s_linestyle sty ! (ii + k) \<and>
              d_lg_n d + k < length (e_legend env) \<and>
              c_label ((c # cs) ! k) = e_legend env ! (d_lg_n d + k) \<and>
              ii + k < length (s_showNoise sty) \<and>
              (c_noise ((c # cs) ! k) \<noteq> None) = (s_showNoise sty ! (ii + k))"
        proof (cases k)
          case 0
          then show ?thesis using c by simp
        next
          case (Suc k')
          with k have "k' < length rest" by simp
          with cs(3) Suc c(11) show ?thesis by simp
        qed
      qed
      ultimately show ?thesis by blast
    qed
  }
  {
    case 2
    then obtain d1 where one: "draw_one env ny sty n ii a d = Inr d1"
      and more: "draw_spectra env ny sty n (Suc ii) rest d1 = Inr d'"
      by (auto simp: bind_eq_Inr)
    from one have "d_lg_n d1 = d_lg_n d + 1" by (rule draw_one_returns)
    with Cons.IH(2)[OF more] show ?case by simp
  }
  {
    case 3
    then obtain d1 where one: "draw_one env ny sty n ii a d = Inr d1"
      and more: "draw_spectra env ny sty n (Suc ii) rest d1 = Inr d'"
      by (auto simp: bind_eq_Inr)
    from one have "length (d_bound d1) = length (d_bound d)" by (rule draw_one_returns)
    with Cons.IH(3)[OF more] show ?case by simp
  }
  {
    case 4
    then obtain d1 where one: "draw_one env ny sty n ii a d = Inr d1"
      and more: "draw_spectra env ny sty n (Suc ii) rest d1 = Inr d'"
      by (auto simp: bind_eq_Inr)
    from one have "\<forall>j. j \<noteq> 3 \<longrightarrow> d_bound d1 ! j = d_bound d ! j" by (rule draw_one_returns)
    with Cons.IH(4)[OF more] show ?case by simp
  }
qed

lemma draw_spectra_grid:
  assumes "draw_spectra env ny sty n ii rest d = Inr d'"
    and "ii = 0 \<and> rest \<noteq> [] \<or> ii \<noteq> 0 \<and> length (d_flxmax d) = length (d_wvmax d)"
  shows "length (d_flxmax d') = length (d_wvmax d') \<and>
         d_wvmax d' = (if ii = 0 then arange (d_bound d ! 0) (d_bound d ! 1) 0.001
                       else d_wvmax d)"
  using assms
proof (induction rest arbitrary: ii d)
  case Nil
  then show ?case by simp
next
  case (Cons a rest)
  from Cons.prems(1) obtain d1 where one: "draw_one env ny sty n ii a d = Inr d1"
    and more: "draw_spectra env ny sty n (Suc ii) rest d1 = Inr d'"
    by (auto simp: bind_eq_Inr)
  from one have g:
    "ii = 0 \<longrightarrow> d_wvmax d1 = arange (d_bound d ! 0) (d_bound d ! 1) 0.001
               \<and> length (d_flxmax d1) = length (d_wvmax d1) \<and> 2 \<le> length (d_bound d)"
    "ii \<noteq> 0 \<longrightarrow> d_wvmax d1 = d_wvmax d
               \<and> length (d_flxmax d1) = min (length (d_flxmax d)) (length (d_wvmax d))"
    by (rule draw_one_returns, blast)+
  with Cons.prems(2) have len: "length (d_flxmax d1) = length (d_wvmax d1)"
    and wv: "d_wvmax d1 = (if ii = 0 then arange (d_bound d ! 0) (d_bound d ! 1) 0.001
                           else d_wvmax d)"
    by auto
  from Cons.IH[OF more] len have
    "length (d_flxmax d') = length (d_wvmax d') \<and> d_wvmax d' = d_wvmax d1" by simp
  with wv show ?case by simp
qed

subsection \<open>The groups of a call and its plots\<close>

lemma all_Spectrum_map: "list_all is_Spectrum l \<Longrightarrow> map Spectrum (map the_spectrum l) = l"
  by (induction l) auto

lemma group_spectra_returns:
  assumes "group_spectra g = Inr sp"
  shows "g = PyList (map Spectrum sp)" "sp \<noteq> []"
proof -
  from assms have l: "is_list g" "items g \<noteq> []" "list_all is_Spectrum (items g)"
    "sp = map the_spectrum (items g)"
    by (auto simp: group_spectra_def split: if_splits)
  have "map Spectrum (map the_spectrum (items g)) = items g"
    using l(3) by (rule all_Spectrum_map)
  then show "g = PyList (map Spectrum sp)" using l(1,4) by (cases g) auto
  show "sp \<noteq> []" using l(2,4) by simp
qed

lemma group_spectra_list:
  "sp \<noteq> [] \<Longrightarrow> group_spectra (PyList (map Spectrum sp)) = Inr sp"
  by (cases sp) (auto simp: group_spectra_def list_all_iff comp_def)

lemma plot_group_spectra:
  assumes "plot_group env plts g ks0 = Inr (ks1, p)"
  shows "group_spectra g = Inr (p_spectra p)"
proof -
  obtain kw0 st0 kw' st' where ks: "ks0 = (kw0, st0)" "ks1 = (kw', st')"
    by (cases ks0, cases ks1) auto
  from assms[unfolded ks] show ?thesis
  proof (rule plot_group_returns)
    fix sp bound kw sty st dest d comparison b3 b2 top
    assume g: "group_spectra g = Inr sp"
      and d: "draw_spectra env (kw_yrange kw = None) sty (length sp) 0 sp
       \<lparr> d_bound = bound, d_wvmax = [], d_flxmax = [], d_lg_n = lg_n st, d_curves = [] \<rparr>
     = Inr d"
      and p: "p = \<lparr> p_curves = d_curves d, p_comparison = comparison,
           p_annotations = snd (label_features (e_nsamples env) (d_bound d)
                                  (0.02 * (b3 - b2)) (d_wvmax d) (e_features env)
                                  (d_flxmax d, [])),
           p_bound = (d_bound d)[3 := top + 2 * (0.02 * (b3 - b2))], p_dest = dest \<rparr>"
    from draw_spectra_returns(1)[OF d] obtain cs where
      cs: "d_curves d = cs" "length cs = length sp" "\<forall>k < length sp. c_spec (cs ! k) = sp ! k"
      by auto
    have "map c_spec cs = sp"
      using cs(2,3) by (intro nth_equalityI) auto
    with g p cs(1) show ?thesis by (simp add: p_spectra_def)
  qed
qed

lemma plot_loop_spectra:
  assumes "plot_loop env plts gs ks = Inr (ks', ps)"
  shows "gs = map (\<lambda>p. PyList (map Spectrum (p_spectra p))) ps"
proof -
  have "True \<and> length ps = length gs \<and>
        (\<forall>i < length gs. group_spectra (gs ! i) = Inr (p_spectra (ps ! i)))"
    by (rule plot_loop_invariant[OF assms, where I = "\<lambda>_ _. True"
          and P = "\<lambda>n g q. group_spectra g = Inr (p_spectra q)"])
       (auto dest: plot_group_spectra)
  then show ?thesis
    by (intro nth_equalityI) (auto dest: group_spectra_returns(1))
qed

lemma plotSpectrum_groups:
  assumes "plotSpectrum args kw = Inr (out, kw')" "read_args args = Some (splist0, ignored)"
  shows "\<exists>multiplot. setup_multiplot (kwget False (kw_multiplot kw)) splist0
           = Inr (multiplot, map (\<lambda>p. PyList (map Spectrum (p_spectra p))) (o_plots out))"
  using assms(1)
proof (cases rule: plotSpectrum_returns)
  case no_args
  with assms(2) show ?thesis by simp
next
  case (plots splist0' ignored' multiplot splist spectra nplot numpages st)
  from plot_loop_spectra[OF plots(5)] plots(1,2) assms(2) show ?thesis by auto
qed

lemma PyList_Spectrum_eq:
  "map (\<lambda>sp. PyList (map Spectrum sp)) xs = map (\<lambda>sp. PyList (map Spectrum sp)) ys \<Longrightarrow> xs = ys"
proof (induction xs arbitrary: ys)
  case Nil
  then show ?case by simp
next
  case (Cons x xs)
  then obtain y ys' where ys: "ys = y # ys'" by (cases ys) auto
  with Cons.prems have "map Spectrum x = map Spectrum y"
    and "map (\<lambda>sp. PyList (map Spectrum sp)) xs = map (\<lambda>sp. PyList (map Spectrum sp)) ys'"
    by simp_all
  moreover have "inj Spectrum" by (simp add: inj_on_def)
  ultimately show ?case using Cons.IH ys by (simp add: inj_map_eq_map)
qed

subsection \<open>Lists of spectra and lists of lists\<close>

lemma read_args_list [simp]: "read_args [PyList l] = Some (l, [])"
  by (simp add: read_args_def)

text \<open>
  C7. A flat list of two or more \<open>Spectrum\<close> objects passed with \<open>multiplot=True\<close>
  is plotted one spectrum per plot: the plots of a call that returns are, in order, the
  spectra of the list, each alone on its plot.
\<close>

theorem flat_list_with_multiplot:
  assumes "2 \<le> length ss" and "kw_multiplot kw = Some True"
    and "plotSpectrum [PyList (map Spectrum ss)] kw = Inr (out, kw')"
  shows "map p_spectra (o_plots out) = map (\<lambda>s. [s]) ss"
proof -
  from assms(1) obtain s ss' where ss: "ss = s # ss'" by (cases ss) auto
  have "setup_multiplot True (map Spectrum ss)
        = Inr (True, map (\<lambda>sp. PyList (map Spectrum sp)) (map (\<lambda>s. [s]) ss))"
    using assms(1) by (cases ss') (simp_all add: setup_multiplot_def ss comp_def)
  moreover from plotSpectrum_groups[OF assms(3) read_args_list] obtain multiplot where
    "setup_multiplot (kwget False (kw_multiplot kw)) (map Spectrum ss)
       = Inr (multiplot, map (\<lambda>p. PyList (map Spectrum (p_spectra p))) (o_plots out))"
    by blast
  ultimately have "map (\<lambda>sp. PyList (map Spectrum sp)) (map p_spectra (o_plots out))
      = map (\<lambda>sp. PyList (map Spectrum sp)) (map (\<lambda>s. [s]) ss)"
    using assms(2) by (simp add: comp_def)
  then show ?thesis by (rule PyList_Spectrum_eq)
qed

lemma setup_multiplot_lists:
  assumes "gs \<noteq> []"
  shows "setup_multiplot m (map (\<lambda>g. PyList (map Spectrum g)) gs)
         = Inr (2 \<le> length gs, map (\<lambda>g. PyList (map Spectrum g)) gs)"
proof -
  from assms obtain g gs' where gs: "gs = g # gs'" by (cases gs) auto
  show ?thesis
    by (cases gs') (auto simp: setup_multiplot_def gs)
qed

text \<open>
  C6, amended. For a list of lists of spectra, \<open>multiplot\<close> is set whatever the caller
  gave: on when the list has two or more inner lists, off when it has exactly one. In
  both cases the groups are the inner lists, and a call that returns has plotted exactly
  one plot per inner list, with the spectra of that inner list on it.
\<close>

theorem sequence_of_sequences:
  assumes "gs \<noteq> []"
  shows "setup_multiplot (kwget False (kw_multiplot kw)) (map (\<lambda>g. PyList (map Spectrum g)) gs)
           = Inr (2 \<le> length gs, map (\<lambda>g. PyList (map Spectrum g)) gs) \<and>
         (\<forall>out kw'. plotSpectrum [PyList (map (\<lambda>g. PyList (map Spectrum g)) gs)] kw
                       = Inr (out, kw') \<longrightarrow> map p_spectra (o_plots out) = gs)"
proof (intro conjI allI impI)
  show s: "setup_multiplot (kwget False (kw_multiplot kw)) (map (\<lambda>g. PyList (map Spectrum g)) gs)
           = Inr (2 \<le> length gs, map (\<lambda>g. PyList (map Spectrum g)) gs)"
    by (rule setup_multiplot_lists[OF assms])
  fix out kw'
  assume "plotSpectrum [PyList (map (\<lambda>g. PyList (map Spectrum g)) gs)] kw = Inr (out, kw')"
  from plotSpectrum_groups[OF this read_args_list] s
  have "map (\<lambda>sp. PyList (map Spectrum sp)) (map p_spectra (o_plots out))
      = map (\<lambda>sp. PyList (map Spectrum sp)) gs"
    by (auto simp: comp_def)
  then show "map p_spectra (o_plots out) = gs" by (rule PyList_Spectrum_eq)
qed

text \<open>
  C6, as the claim states it, fails: for a list with a single inner list line 206 turns
  \<open>multiplot\<close> off, also when the caller passed \<open>multiplot=True\<close>.
\<close>

theorem single_sequence_multiplot_off:
  "setup_multiplot True [PyList [Spectrum s0, Spectrum s0]]
   = Inr (False, [PyList [Spectrum s0, Spectrum s0]])"
  by (simp add: setup_multiplot_def)

subsection \<open>Pages and tiles\<close>

lemma nat_div_pred_dvd:
  assumes "0 < (i::nat)" "0 < n" "i mod n = 0"
  shows "(i - 1) div n + 1 = i div n"
proof -
  from assms(3) obtain k where k: "i = n * k" by (auto simp: mod_eq_0_iff_dvd)
  with assms(1) obtain k' where k': "k = Suc k'" by (cases k) auto
  have "i - 1 = (n - 1) + k' * n" using k k' assms(2) by (simp add: algebra_simps)
  moreover have "((n - 1) + k' * n) div n = k' + (n - 1) div n"
    using assms(2) by (subst div_mult_self1) auto
  moreover have "(n - 1) div n = 0" using assms(2) by simp
  ultimately have "(i - 1) div n = k'" by (simp del: One_nat_def)
  moreover have "i div n = k" using k assms(2) by simp
  ultimately show ?thesis using k' by simp
qed

lemma nat_div_pred_ndvd:
  assumes "0 < (n::nat)" "i mod n \<noteq> 0"
  shows "(i - 1) div n = i div n"
proof -
  have "i = (i mod n) + (i div n) * n" by simp
  then have "i - 1 = (i mod n - 1) + (i div n) * n" using assms(2) by linarith
  moreover have "i mod n - 1 < n" using assms(1) by (simp add: less_imp_diff_less)
  moreover have "((i mod n - 1) + (i div n) * n) div n = i div n + (i mod n - 1) div n"
    using assms(1) by (subst div_mult_self1) auto
  ultimately show ?thesis by (simp del: One_nat_def)
qed

lemma ceiling_div_pages:
  "0 < (n::int) \<Longrightarrow> \<lceil>real_of_int a / real_of_int n\<rceil> = (if a mod n = 0 then a div n else a div n + 1)"
  by (simp add: ceiling_divide_eq_div zdiv_zminus1_eq_if)


lemma py_get_nat: "i < length l \<Longrightarrow> py_get what l (int i) = Inr (l ! i)"
  by (simp add: py_get_def)

lemma place_multipage_returns:
  assumes "e_multipage env" and "e_nplot env = int n" and "0 < n"
    and "place env st i = Inr (st', dest)"
    and "pg_n st = (if i = 0 then 0 else (i - 1) div n + 1)"
  shows "dest = OnPage (i div n) (int (i mod n)) \<and> pg_n st' = i div n + 1 \<and>
         length (fig st') = length (fig st) \<and> lg_n st' = lg_n st"
proof (cases "i mod n = 0")
  case True
  have pg: "pg_n st = i div n"
    using assms(5) nat_div_pred_dvd[OF _ assms(3) True] by (cases "i = 0") auto
  have m: "int i mod int n = 0" using True by (simp flip: of_nat_mod)
  from assms(4) show ?thesis
    using assms(1,2,3) pg m True
    by (auto simp: place_def Let_def bind_eq_Inr py_get_def split: if_splits)
next
  case False
  then have i: "i \<noteq> 0" by (cases "i = 0") auto
  have pg: "pg_n st = i div n + 1"
    using assms(5) nat_div_pred_ndvd[OF assms(3) False] i by simp
  have m: "int i mod int n \<noteq> 0" using False by (simp flip: of_nat_mod)
  have m': "int i mod int n = int (i mod n)" by (simp add: of_nat_mod)
  from assms(4) show ?thesis
    using assms(1,2,3) pg m
    by (auto simp: place_def Let_def bind_eq_Inr py_get_def m' split: if_splits)
qed


lemma save_pages_returns: "save_pages pdf figures = Inr k \<Longrightarrow> k = length figures"
  by (induction figures arbitrary: k) (auto simp: bind_eq_Inr split: if_splits)

lemma plot_group_place:
  assumes "plot_group env plts g (kw0, st0) = Inr ((kw', st'), p)"
  shows "\<exists>st. place env st0 plts = Inr (st, p_dest p) \<and> pg_n st' = pg_n st \<and> fig st' = fig st"
  using assms by (rule plot_group_returns) auto

lemma plot_loop_pages:
  assumes "plot_loop env 0 gs (kw, st) = Inr ((kw', st'), ps)"
    and "e_multipage env" and "e_nplot env = int n" and "0 < n" and "pg_n st = 0"
  shows "length (fig st') = length (fig st) \<and> length ps = length gs \<and>
         (\<forall>i < length gs. p_dest (ps ! i) = OnPage (i div n) (int (i mod n)))"
proof -
  let ?I = "\<lambda>i ks. pg_n (snd ks) = (if i = 0 then 0 else (i - 1) div n + 1) \<and>
                   length (fig (snd ks)) = length (fig st)"
  let ?P = "\<lambda>i (g::pyobj) p. p_dest p = OnPage (i div n) (int (i mod n))"
  have "?I (0 + length gs) (kw', st') \<and> length ps = length gs \<and>
        (\<forall>i < length gs. ?P (0 + i) (gs ! i) (ps ! i))"
  proof (rule plot_loop_invariant[OF assms(1), where I = ?I and P = ?P])
    show "?I 0 (kw, st)" using assms(5) by simp
  next
    fix i ks0 ks1 p
    assume inv: "?I (0 + i) ks0"
      and g: "plot_group env (0 + i) (gs ! i) ks0 = Inr (ks1, p)"
    obtain kw0 st0 kw1 st1 where ks: "ks0 = (kw0, st0)" "ks1 = (kw1, st1)"
      by (cases ks0, cases ks1) auto
    from plot_group_place[OF g[unfolded ks]] obtain st2 where
      pl: "place env st0 (0 + i) = Inr (st2, p_dest p)" and
      eq: "pg_n st1 = pg_n st2" "fig st1 = fig st2" by blast
    from inv ks have "pg_n st0 = (if i = 0 then 0 else (i - 1) div n + 1)" by simp
    from place_multipage_returns[OF assms(2,3,4) pl[simplified] this] eq inv ks
    show "?I (0 + Suc i) ks1 \<and> ?P (0 + i) (gs ! i) p" by simp
  qed
  then show ?thesis by simp
qed

lemma setup_pages_returns:
  assumes "setup_pages (R # C # rest) G = Inr (nplot, numpages)" and "0 < R * C"
  shows "nplot = R * C \<and> numpages = \<lceil>real G / real_of_int (R * C)\<rceil>"
  using assms
  by (auto simp: setup_pages_def index_def Let_def ceiling_div_pages[of "R * C" "int G", simplified]
           split: if_splits)

text \<open>
  C4. In multipage mode, with a layout of \<open>R\<close> rows and \<open>C\<close> columns (both at least
  one), a call that returns with \<open>G\<close> plots has saved \<open>ceil(G / (R * C))\<close> pages, and its
  plot number \<open>i\<close> (counted from zero) is on page \<open>floor(i / (R * C))\<close> at the tile
  \<open>i mod (R * C)\<close>.
\<close>

theorem pagination:
  assumes "kw_multipage kw = Some True" and "get_multilayout kw = R # C # rest"
    and "1 \<le> R" and "1 \<le> C"
    and "plotSpectrum args kw = Inr (out, kw')"
  shows "int (o_pages out) = \<lceil>real (length (o_plots out)) / real_of_int (R * C)\<rceil> \<and>
         (\<forall>i < length (o_plots out).
            p_dest (o_plots out ! i) = OnPage (i div nat (R * C)) (int i mod (R * C)))"
  using assms(5)
proof (cases rule: plotSpectrum_returns)
  case no_args
  then show ?thesis by simp
next
  case (plots splist0 ignored multiplot splist spectra nplot numpages st)
  have pos: "0 < R * C" using assms(3,4) by simp
  from plots(4) assms(1,2) have "setup_pages (R # C # rest) (length splist) = Inr (nplot, numpages)"
    by (simp add: page_setup_def)
  from setup_pages_returns[OF this pos] have np: "nplot = R * C"
    and num: "numpages = \<lceil>real (length splist) / real_of_int (R * C)\<rceil>" by simp_all
  have env: "e_multipage (make_env kw (snd (prep_legend kw (length spectra))) nplot (length splist))"
    "e_nplot (make_env kw (snd (prep_legend kw (length spectra))) nplot (length splist))
       = int (nat (R * C))"
    using assms(1) np pos by (simp_all add: make_env_def)
  have n0: "0 < nat (R * C)" using pos by simp
  from plot_loop_pages[OF plots(5) env n0] have
    len: "length (fig st) = nat numpages" "length (o_plots out) = length splist" and
    dest: "\<forall>i < length splist. p_dest (o_plots out ! i)
              = OnPage (i div nat (R * C)) (int (i mod nat (R * C)))" by simp_all
  from plots(6) assms(1) have "o_pages out = length (fig st)"
    by (auto simp: save_document_def dest: save_pages_returns)
  moreover have "0 \<le> numpages" using num pos
    by (simp add: ceiling_div_pages[of "R * C" "int (length splist)", simplified] pos_imp_zdiv_nonneg_iff)
  moreover have "\<And>i. int (i mod nat (R * C)) = int i mod (R * C)"
    using pos by (simp add: of_nat_mod)
  ultimately show ?thesis using len dest num by simp
qed

subsection \<open>Lists of the caller\<close>

lemma put_colors_frame [simp]:
  "kw_xrange (put_colors kw l) = kw_xrange kw"
  "kw_yrange (put_colors kw l) = kw_yrange kw"
  "kw_zeropoint (put_colors kw l) = kw_zeropoint kw"
  "kw_features (put_colors kw l) = kw_features kw"
  "kw_showNoise (put_colors kw l) = kw_showNoise kw"
  "kw_noise (put_colors kw l) = kw_noise kw"
  "kw_uncertainty (put_colors kw l) = kw_uncertainty kw"
  by (simp_all add: put_colors_def)

lemma resolve_linestyle_frame [simp]:
  "kw_xrange (fst (resolve_linestyle kw n)) = kw_xrange kw"
  "kw_yrange (fst (resolve_linestyle kw n)) = kw_yrange kw"
  "kw_zeropoint (fst (resolve_linestyle kw n)) = kw_zeropoint kw"
  "kw_features (fst (resolve_linestyle kw n)) = kw_features kw"
  "kw_showNoise (fst (resolve_linestyle kw n)) = kw_showNoise kw"
  "kw_noise (fst (resolve_linestyle kw n)) = kw_noise kw"
  "kw_uncertainty (fst (resolve_linestyle kw n)) = kw_uncertainty kw"
  by (simp_all add: resolve_linestyle_def Let_def)

lemma resolve_colors_frame:
  assumes "resolve_colors kw n = Inr (kw', colors)"
  shows "kw_xrange kw' = kw_xrange kw" "kw_yrange kw' = kw_yrange kw"
    "kw_zeropoint kw' = kw_zeropoint kw" "kw_features kw' = kw_features kw"
    "kw_showNoise kw' = kw_showNoise kw" "kw_noise kw' = kw_noise kw"
    "kw_uncertainty kw' = kw_uncertainty kw" "n \<le> length colors"
  using assms
  by (auto simp: resolve_colors_def Let_def extend_to_def split: option.splits if_splits)

lemma resolve_colorsUnc_frame [simp]:
  "kw_xrange (fst (resolve_colorsUnc kw n c)) = kw_xrange kw"
  "kw_yrange (fst (resolve_colorsUnc kw n c)) = kw_yrange kw"
  "kw_zeropoint (fst (resolve_colorsUnc kw n c)) = kw_zeropoint kw"
  "kw_features (fst (resolve_colorsUnc kw n c)) = kw_features kw"
  "kw_showNoise (fst (resolve_colorsUnc kw n c)) = kw_showNoise kw"
  "kw_noise (fst (resolve_colorsUnc kw n c)) = kw_noise kw"
  "kw_uncertainty (fst (resolve_colorsUnc kw n c)) = kw_uncertainty kw"
  by (simp_all add: resolve_colorsUnc_def Let_def)

lemma resolve_showNoise_frame [simp]:
  "kw_xrange (fst (resolve_showNoise kw n)) = kw_xrange kw"
  "kw_yrange (fst (resolve_showNoise kw n)) = kw_yrange kw"
  "kw_zeropoint (fst (resolve_showNoise kw n)) = kw_zeropoint kw"
  "kw_features (fst (resolve_showNoise kw n)) = kw_features kw"
  by (simp_all add: resolve_showNoise_def put_showNoise_def split: flag.splits)

lemma resolve_showZero_frame [simp]:
  "kw_xrange (fst (resolve_showZero kw n)) = kw_xrange kw"
  "kw_yrange (fst (resolve_showZero kw n)) = kw_yrange kw"
  "kw_zeropoint (fst (resolve_showZero kw n)) = kw_zeropoint kw"
  "kw_features (fst (resolve_showZero kw n)) = kw_features kw"
  "kw_showNoise (fst (resolve_showZero kw n)) = kw_showNoise kw"
  "kw_noise (fst (resolve_showZero kw n)) = kw_noise kw"
  "kw_uncertainty (fst (resolve_showZero kw n)) = kw_uncertainty kw"
  by (simp_all add: resolve_showZero_def split: flag.splits option.splits)

lemma extend_to_length [simp]: "n \<le> length (extend_to n d l)"
  by (simp add: extend_to_def)

lemma resolve_styles_returns:
  assumes "resolve_styles kw n = Inr (kw', sty)"
  obtains kw2 where
    "kw_xrange kw2 = kw_xrange kw" "kw_yrange kw2 = kw_yrange kw"
    "kw_zeropoint kw2 = kw_zeropoint kw" "kw_features kw2 = kw_features kw"
    "kw_showNoise kw2 = kw_showNoise kw" "kw_noise kw2 = kw_noise kw"
    "kw_uncertainty kw2 = kw_uncertainty kw"
    "kw' = fst (resolve_showZero (fst (resolve_showNoise kw2 n)) n)"
    "s_showNoise sty = snd (resolve_showNoise kw2 n)"
    "s_zeropoint sty = kwget (replicate n 0) (kw_zeropoint kw)"
    "n \<le> length (s_linestyle sty)" "n \<le> length (s_colors sty)"
    "n \<le> length (s_colorsUnc sty)" "n \<le> length (s_showNoise sty)"
    "n \<le> length (s_showZero sty)"
proof -
  from assms obtain kw2 colors where
    c: "resolve_colors (fst (resolve_linestyle kw n)) n = Inr (kw2, colors)" and
    k: "kw' = fst (resolve_showZero (fst (resolve_showNoise (fst (resolve_colorsUnc kw2 n colors)) n)) n)" and
    s: "sty = \<lparr> s_zeropoint = kwget (replicate n 0) (kw_zeropoint kw),
                s_linestyle = snd (resolve_linestyle kw n), s_colors = colors,
                s_colorsUnc = snd (resolve_colorsUnc kw2 n colors),
                s_showNoise = snd (resolve_showNoise (fst (resolve_colorsUnc kw2 n colors)) n),
                s_showZero = snd (resolve_showZero (fst (resolve_showNoise (fst (resolve_colorsUnc kw2 n colors)) n)) n) \<rparr>"
    by (auto simp: resolve_styles_def bind_eq_Inr Let_def split_beta)
  note f = resolve_colors_frame[OF c]
  show ?thesis
  proof (rule that[of "fst (resolve_colorsUnc kw2 n colors)"])
    show "n \<le> length (s_linestyle sty)" by (simp add: s resolve_linestyle_def Let_def)
    show "n \<le> length (s_colors sty)" using f(8) by (simp add: s)
    show "n \<le> length (s_colorsUnc sty)" by (simp add: s resolve_colorsUnc_def Let_def)
    show "n \<le> length (s_showNoise sty)"
      by (simp add: s resolve_showNoise_def split: flag.splits)
    show "n \<le> length (s_showZero sty)"
      by (simp add: s resolve_showZero_def split: flag.splits)
  qed (simp_all add: f k s)
qed


lemma alias_bound_frame [simp]:
  "kw_yrange (alias_bound kw b) = kw_yrange kw"
  "kw_zeropoint (alias_bound kw b) = kw_zeropoint kw"
  "kw_features (alias_bound kw b) = kw_features kw"
  "kw_showNoise (alias_bound kw b) = kw_showNoise kw"
  "kw_noise (alias_bound kw b) = kw_noise kw"
  "kw_uncertainty (alias_bound kw b) = kw_uncertainty kw"
  "kw_xrange (alias_bound kw b) = (case kw_xrange kw of None \<Rightarrow> None | Some _ \<Rightarrow> Some b)"
  by (simp_all add: alias_bound_def split: option.splits)

lemma resolve_bound_returns:
  assumes "resolve_bound kw sp zeropoint = Inr bound"
  obtains yrng where "bound = kwget [0.85, 2.42] (kw_xrange kw) @ yrng"
    "length yrng = (case kw_yrange kw of None \<Rightarrow> 2 | Some ys \<Rightarrow> length ys)"
  using assms
  by (auto simp: resolve_bound_def bind_eq_Inr split: option.splits)

text \<open>The number of values that line 274 appends to \<open>bound\<close>.\<close>

lemma plot_group_bound:
  assumes "plot_group env plts g (kw0, st0) = Inr ((kw', st'), p)"
  shows "kw_yrange kw' = kw_yrange kw0" "kw_features kw' = kw_features kw0"
    "kw_zeropoint kw' = kw_zeropoint kw0"
    "kw_xrange kw' = (case kw_xrange kw0 of None \<Rightarrow> None | Some _ \<Rightarrow> Some (p_bound p))"
    "length (p_bound p) = length (kwget [0.85, 2.42] (kw_xrange kw0))
        + (case kw_yrange kw0 of None \<Rightarrow> 2 | Some ys \<Rightarrow> length ys)"
    "\<forall>j < length (kwget [0.85, 2.42] (kw_xrange kw0)).
        j \<noteq> 3 \<longrightarrow> p_bound p ! j = kwget [0.85, 2.42] (kw_xrange kw0) ! j"
proof -
  from assms have "kw_yrange kw' = kw_yrange kw0 \<and> kw_features kw' = kw_features kw0 \<and>
    kw_zeropoint kw' = kw_zeropoint kw0 \<and>
    kw_xrange kw' = (case kw_xrange kw0 of None \<Rightarrow> None | Some _ \<Rightarrow> Some (p_bound p)) \<and>
    length (p_bound p) = length (kwget [0.85, 2.42] (kw_xrange kw0))
        + (case kw_yrange kw0 of None \<Rightarrow> 2 | Some ys \<Rightarrow> length ys) \<and>
    (\<forall>j < length (kwget [0.85, 2.42] (kw_xrange kw0)).
        j \<noteq> 3 \<longrightarrow> p_bound p ! j = kwget [0.85, 2.42] (kw_xrange kw0) ! j)"
  proof (rule plot_group_returns)
    fix sp bound kw sty st dest d comparison b3 b2 top
    assume b: "resolve_bound kw0 sp (kwget (replicate (length sp) 0) (kw_zeropoint kw0)) = Inr bound"
      and sty: "resolve_styles kw0 (length sp) = Inr (kw, sty)"
      and d: "draw_spectra env (kw_yrange kw = None) sty (length sp) 0 sp
       \<lparr> d_bound = bound, d_wvmax = [], d_flxmax = [], d_lg_n = lg_n st, d_curves = [] \<rparr>
     = Inr d"
      and kw': "kw' = alias_bound kw ((d_bound d)[3 := top + 2 * (0.02 * (b3 - b2))])"
      and p: "p = \<lparr> p_curves = d_curves d, p_comparison = comparison,
           p_annotations = snd (label_features (e_nsamples env) (d_bound d)
                                  (0.02 * (b3 - b2)) (d_wvmax d) (e_features env)
                                  (d_flxmax d, [])),
           p_bound = (d_bound d)[3 := top + 2 * (0.02 * (b3 - b2))], p_dest = dest \<rparr>"
    from sty have fr: "kw_xrange kw = kw_xrange kw0" "kw_yrange kw = kw_yrange kw0"
      "kw_zeropoint kw = kw_zeropoint kw0" "kw_features kw = kw_features kw0"
      by (rule resolve_styles_returns, simp)+
    from b obtain yrng where y: "bound = kwget [0.85, 2.42] (kw_xrange kw0) @ yrng"
      "length yrng = (case kw_yrange kw0 of None \<Rightarrow> 2 | Some ys \<Rightarrow> length ys)"
      by (rule resolve_bound_returns)
    from draw_spectra_returns(3,4)[OF d] have db: "length (d_bound d) = length bound"
      "\<forall>j. j \<noteq> 3 \<longrightarrow> d_bound d ! j = bound ! j" by simp_all
    show ?thesis
      using fr y db unfolding kw' p by (auto simp: nth_append split: option.splits)
  qed
  then show "kw_yrange kw' = kw_yrange kw0" "kw_features kw' = kw_features kw0"
    "kw_zeropoint kw' = kw_zeropoint kw0"
    "kw_xrange kw' = (case kw_xrange kw0 of None \<Rightarrow> None | Some _ \<Rightarrow> Some (p_bound p))"
    "length (p_bound p) = length (kwget [0.85, 2.42] (kw_xrange kw0))
        + (case kw_yrange kw0 of None \<Rightarrow> 2 | Some ys \<Rightarrow> length ys)"
    "\<forall>j < length (kwget [0.85, 2.42] (kw_xrange kw0)).
        j \<noteq> 3 \<longrightarrow> p_bound p ! j = kwget [0.85, 2.42] (kw_xrange kw0) ! j"
    by blast+
qed

lemma plot_loop_xrange:
  assumes "plot_loop env plts gs (kw, st) = Inr ((kw', st'), ps)" and "kw_xrange kw = Some xs"
  shows "kw_yrange kw' = kw_yrange kw \<and> kw_features kw' = kw_features kw \<and>
         (\<exists>xs'. kw_xrange kw' = Some xs' \<and>
            length xs' = length xs
               + length gs * (case kw_yrange kw of None \<Rightarrow> 2 | Some ys \<Rightarrow> length ys) \<and>
            (\<forall>j < length xs. j \<noteq> 3 \<longrightarrow> xs' ! j = xs ! j) \<and>
            (ps \<noteq> [] \<longrightarrow> p_bound (last ps) = xs'))"
  using assms
proof (induction gs arbitrary: plts kw st ps xs)
  case Nil
  then show ?case by simp
next
  case (Cons g gs)
  from Cons.prems(1) obtain kw1 st1 p ps' where
    g: "plot_group env plts g (kw, st) = Inr ((kw1, st1), p)" and
    r: "plot_loop env (Suc plts) gs (kw1, st1) = Inr ((kw', st'), ps')" and
    ps: "ps = p # ps'"
    by (auto simp: bind_eq_Inr split: prod.splits)
  note b = plot_group_bound[OF g]
  from b(4,5,6) Cons.prems(2) have x1: "kw_xrange kw1 = Some (p_bound p)"
    and l1: "length (p_bound p) = length xs
           + (case kw_yrange kw of None \<Rightarrow> 2 | Some ys \<Rightarrow> length ys)"
    and e1: "\<forall>j < length xs. j \<noteq> 3 \<longrightarrow> p_bound p ! j = xs ! j"
    by simp_all
  from Cons.IH[OF r x1] obtain xs' where
    f: "kw_yrange kw' = kw_yrange kw1" "kw_features kw' = kw_features kw1"
    "kw_xrange kw' = Some xs'"
    "length xs' = length (p_bound p)
       + length gs * (case kw_yrange kw1 of None \<Rightarrow> 2 | Some ys \<Rightarrow> length ys)"
    "\<forall>j < length (p_bound p). j \<noteq> 3 \<longrightarrow> xs' ! j = p_bound p ! j"
    "ps' \<noteq> [] \<longrightarrow> p_bound (last ps') = xs'"
    by blast
  have "ps' = [] \<longrightarrow> gs = []" using r by (cases gs) (auto simp: bind_eq_Inr split: prod.splits)
  then have "ps' = [] \<longrightarrow> xs' = p_bound p" using r x1 f(3) by auto
  then show ?case using f b(1,2) l1 e1 ps by (auto simp: algebra_simps)
qed

lemma prep_legend_frame [simp]:
  "kw_xrange (fst (prep_legend kw n)) = kw_xrange kw"
  "kw_yrange (fst (prep_legend kw n)) = kw_yrange kw"
  "kw_zeropoint (fst (prep_legend kw n)) = kw_zeropoint kw"
  "kw_features (fst (prep_legend kw n)) = kw_features kw"
  "kw_showNoise (fst (prep_legend kw n)) = kw_showNoise kw"
  "kw_noise (fst (prep_legend kw n)) = kw_noise kw"
  "kw_uncertainty (fst (prep_legend kw n)) = kw_uncertainty kw"
  by (simp_all add: prep_legend_def put_legend_def Let_def)

lemma extend_features_frame [simp]:
  "kw_xrange (extend_features kw) = kw_xrange kw"
  "kw_yrange (extend_features kw) = kw_yrange kw"
  "kw_zeropoint (extend_features kw) = kw_zeropoint kw"
  "kw_showNoise (extend_features kw) = kw_showNoise kw"
  "kw_noise (extend_features kw) = kw_noise kw"
  "kw_uncertainty (extend_features kw) = kw_uncertainty kw"
  "kw_features (extend_features kw) = map_option (\<lambda>fs. fs @ preset_features kw) (kw_features kw)"
  by (simp_all add: extend_features_def split: option.splits)

lemma plot_loop_features:
  assumes "plot_loop env plts gs (kw, st) = Inr ((kw', st'), ps)"
  shows "kw_features kw' = kw_features kw"
proof -
  have "kw_features (fst (kw', st')) = kw_features kw \<and> length ps = length gs \<and>
        (\<forall>i < length gs. True)"
    by (rule plot_loop_invariant[OF assms, where I = "\<lambda>_ ks. kw_features (fst ks) = kw_features kw"
          and P = "\<lambda>_ _ _. True"])
       (auto dest: plot_group_bound(2))
  then show ?thesis by simp
qed

lemma plot_loop_growth:
  assumes "plot_loop env 0 gs (kw, st) = Inr ((kw', st'), ps)" and "kw_xrange kw = Some xs"
  shows "\<forall>i < length ps.
           length (p_bound (ps ! i))
             = length xs + (i + 1) * (case kw_yrange kw of None \<Rightarrow> 2 | Some ys \<Rightarrow> length ys) \<and>
           (\<forall>j < length xs. j \<noteq> 3 \<longrightarrow> p_bound (ps ! i) ! j = xs ! j)"
proof -
  define L where "L = (case kw_yrange kw of None \<Rightarrow> 2 | Some ys \<Rightarrow> length ys)"
  define I where "I = (\<lambda>n (ks :: kwargs \<times> lstate). kw_yrange (fst ks) = kw_yrange kw \<and>
     (\<exists>b. kw_xrange (fst ks) = Some b \<and> length b = length xs + n * L \<and>
          (\<forall>j < length xs. j \<noteq> 3 \<longrightarrow> b ! j = xs ! j)))"
  define P where "P = (\<lambda>n (g :: pyobj) (p :: plot). length (p_bound p) = length xs + (n + 1) * L \<and>
          (\<forall>j < length xs. j \<noteq> 3 \<longrightarrow> p_bound p ! j = xs ! j))"
  have "I (0 + length gs) (kw', st') \<and> length ps = length gs \<and>
        (\<forall>i < length gs. P (0 + i) (gs ! i) (ps ! i))"
  proof (rule plot_loop_invariant[OF assms(1)])
    show "I 0 (kw, st)" using assms(2) by (simp add: I_def)
  next
    fix i and ks0 ks1 :: "kwargs \<times> lstate" and p
    assume i: "I (0 + i) ks0" and g: "plot_group env (0 + i) (gs ! i) ks0 = Inr (ks1, p)"
    obtain kw0 st0 kw1 st1 where ks: "ks0 = (kw0, st0)" "ks1 = (kw1, st1)"
      by (cases ks0, cases ks1) auto
    from i ks obtain b where b: "kw_yrange kw0 = kw_yrange kw" "kw_xrange kw0 = Some b"
      "length b = length xs + i * L" "\<forall>j < length xs. j \<noteq> 3 \<longrightarrow> b ! j = xs ! j"
      by (auto simp: I_def)
    note f = plot_group_bound[OF g[unfolded ks]]
    from f(4,5,6) b have x1: "kw_xrange kw1 = Some (p_bound p)"
      and l1: "length (p_bound p) = length xs + i * L + L"
      and e1: "\<forall>j < length xs. j \<noteq> 3 \<longrightarrow> p_bound p ! j = xs ! j"
      by (simp_all add: L_def)
    show "I (0 + Suc i) ks1 \<and> P (0 + i) (gs ! i) p"
      using x1 l1 e1 f(1) b(1) ks by (simp add: I_def P_def)
  qed
  then show ?thesis by (simp add: P_def L_def)
qed

text \<open>
  C9. The routine changes lists of the caller in place. After a call that returns, a
  list passed as \<open>features\<close> holds in addition the codes of the class-membership flags
  that are set: seven codes for \<open>ldwarf\<close> or \<open>mdwarf\<close>, four for \<open>tdwarf\<close>, one for \<open>young\<close>
  and one for \<open>binary\<close>, in this order. A list passed as \<open>xrange\<close> is the list \<open>bound\<close> of
  every plot group: each group appends the flux range to it (two values, or the entries
  of \<open>yrange\<close>), so the bounds of plot \<open>i\<close> are longer than the list supplied by \<open>i + 1\<close>
  times that number, and after the call the list is longer by that number for every
  plot; its old entries are unchanged apart from the entry 3, which the routine
  overwrites, and it is the list that the last plot passed as axis bounds.
\<close>

theorem caller_lists_grow:
  assumes "plotSpectrum args kw = Inr (out, kw')"
  shows "(\<forall>fs. kw_features kw = Some fs \<longrightarrow>
            kw_features kw' = Some (fs
              @ (if kw_ldwarf kw = Some True \<or> kw_mdwarf kw = Some True
                 then [''k'', ''na'', ''feh'', ''tio'', ''co'', ''h2o'', ''h2''] else [])
              @ (if kw_tdwarf kw = Some True then [''k'', ''ch4'', ''h2o'', ''h2''] else [])
              @ (if kw_young kw = Some True then [''vo''] else [])
              @ (if kw_binary kw = Some True then [''sb''] else []))) \<and>
         (\<forall>xs. kw_xrange kw = Some xs \<longrightarrow>
            (\<exists>xs'. kw_xrange kw' = Some xs' \<and>
               length xs' = length xs + length (o_plots out)
                    * (case kw_yrange kw of None \<Rightarrow> 2 | Some ys \<Rightarrow> length ys) \<and>
               (\<forall>j < length xs. j \<noteq> 3 \<longrightarrow> xs' ! j = xs ! j) \<and>
               (o_plots out \<noteq> [] \<longrightarrow> p_bound (last (o_plots out)) = xs') \<and>
               (\<forall>i < length (o_plots out).
                  length (p_bound (o_plots out ! i))
                    = length xs
                      + (i + 1) * (case kw_yrange kw of None \<Rightarrow> 2 | Some ys \<Rightarrow> length ys) \<and>
                  (\<forall>j < length xs. j \<noteq> 3 \<longrightarrow> p_bound (o_plots out ! i) ! j = xs ! j))))"
proof -
  have pre: "preset_features kw
     = (if kw_ldwarf kw = Some True \<or> kw_mdwarf kw = Some True
        then [''k'', ''na'', ''feh'', ''tio'', ''co'', ''h2o'', ''h2''] else [])
       @ (if kw_tdwarf kw = Some True then [''k'', ''ch4'', ''h2o'', ''h2''] else [])
       @ (if kw_young kw = Some True then [''vo''] else [])
       @ (if kw_binary kw = Some True then [''sb''] else [])"
    unfolding preset_features_def
    by (cases "kw_ldwarf kw"; cases "kw_mdwarf kw"; cases "kw_tdwarf kw"; cases "kw_young kw";
        cases "kw_binary kw") simp_all
  from assms show ?thesis
  proof (cases rule: plotSpectrum_returns)
    case no_args
    then show ?thesis by (simp add: pre)
  next
    case (plots splist0 ignored multiplot splist spectra nplot numpages st)
    have len: "length (o_plots out) = length splist"
      using plot_loop_spectra[OF plots(5)] by (metis length_map)
    show ?thesis
    proof (intro conjI allI impI)
      fix fs assume "kw_features kw = Some fs"
      with plot_loop_features[OF plots(5)]
      show "kw_features kw' = Some (fs
              @ (if kw_ldwarf kw = Some True \<or> kw_mdwarf kw = Some True
                 then [''k'', ''na'', ''feh'', ''tio'', ''co'', ''h2o'', ''h2''] else [])
              @ (if kw_tdwarf kw = Some True then [''k'', ''ch4'', ''h2o'', ''h2''] else [])
              @ (if kw_young kw = Some True then [''vo''] else [])
              @ (if kw_binary kw = Some True then [''sb''] else []))"
        by (simp add: pre)
    next
      fix xs assume "kw_xrange kw = Some xs"
      then have x: "kw_xrange (fst (prep_legend (extend_features kw) (length spectra))) = Some xs"
        by simp
      have y: "kw_yrange (fst (prep_legend (extend_features kw) (length spectra))) = kw_yrange kw"
        by simp
      from plot_loop_xrange[OF plots(5) x] plot_loop_growth[OF plots(5) x] len
      show "\<exists>xs'. kw_xrange kw' = Some xs' \<and>
               length xs' = length xs + length (o_plots out)
                    * (case kw_yrange kw of None \<Rightarrow> 2 | Some ys \<Rightarrow> length ys) \<and>
               (\<forall>j < length xs. j \<noteq> 3 \<longrightarrow> xs' ! j = xs ! j) \<and>
               (o_plots out \<noteq> [] \<longrightarrow> p_bound (last (o_plots out)) = xs') \<and>
               (\<forall>i < length (o_plots out).
                  length (p_bound (o_plots out ! i))
                    = length xs
                      + (i + 1) * (case kw_yrange kw of None \<Rightarrow> 2 | Some ys \<Rightarrow> length ys) \<and>
                  (\<forall>j < length xs. j \<noteq> 3 \<longrightarrow> p_bound (o_plots out ! i) ! j = xs ! j))"
        unfolding y by simp
    qed
  qed
qed

subsection \<open>Uncertainty curves\<close>

lemma get_showNoise_cong:
  "kw_showNoise kw1 = kw_showNoise kw2 \<Longrightarrow> kw_noise kw1 = kw_noise kw2 \<Longrightarrow>
   kw_uncertainty kw1 = kw_uncertainty kw2 \<Longrightarrow> get_showNoise kw1 n = get_showNoise kw2 n"
  by (simp add: get_showNoise_def)

lemma get_showNoise_given:
  "kw_uncertainty kw \<noteq> None \<or> kw_noise kw \<noteq> None \<or> kw_showNoise kw \<noteq> None \<Longrightarrow>
   get_showNoise kw n = get_showNoise kw 0"
  by (auto simp: get_showNoise_def)

lemma get_showNoise_default:
  "kw_uncertainty kw = None \<Longrightarrow> kw_noise kw = None \<Longrightarrow> kw_showNoise kw = None \<Longrightarrow>
   get_showNoise kw n = Flags (replicate n False)"
  by (simp add: get_showNoise_def)

lemma resolve_showNoise_given:
  assumes "kw_uncertainty kw \<noteq> None \<or> kw_noise kw \<noteq> None \<or> kw_showNoise kw \<noteq> None"
    and "get_showNoise kw 0 = Flags l"
  shows "snd (resolve_showNoise kw n) = extend_to n True l"
    and "get_showNoise (fst (resolve_showNoise kw n)) 0 = Flags (extend_to n True l)"
    and "kw_uncertainty (fst (resolve_showNoise kw n)) \<noteq> None \<or>
         kw_noise (fst (resolve_showNoise kw n)) \<noteq> None \<or>
         kw_showNoise (fst (resolve_showNoise kw n)) \<noteq> None"
  using assms get_showNoise_given[OF assms(1), of n]
  by (auto simp: resolve_showNoise_def put_showNoise_def get_showNoise_def)

lemma resolve_showNoise_default:
  assumes "kw_uncertainty kw = None" "kw_noise kw = None" "kw_showNoise kw = None"
  shows "snd (resolve_showNoise kw n) = replicate n False"
    and "kw_uncertainty (fst (resolve_showNoise kw n)) = None"
    and "kw_noise (fst (resolve_showNoise kw n)) = None"
    and "kw_showNoise (fst (resolve_showNoise kw n)) = None"
  using assms
  by (auto simp: resolve_showNoise_def put_showNoise_def get_showNoise_def extend_to_def)

lemma extend_to_padded:
  "\<exists>m'. extend_to n d (l @ replicate m d) = l @ replicate m' d"
  by (auto simp: extend_to_def simp flip: replicate_add)

lemma extend_to_nth:
  "k < n \<Longrightarrow> extend_to n d (l @ replicate m d) ! k = (if k < length l then l ! k else d)"
  by (auto simp: extend_to_def nth_append)

lemma plot_group_noise:
  assumes "plot_group env plts g (kw0, st0) = Inr ((kw', st'), p)"
  obtains kw2 where
    "kw_showNoise kw2 = kw_showNoise kw0" "kw_noise kw2 = kw_noise kw0"
    "kw_uncertainty kw2 = kw_uncertainty kw0"
    "kw_showNoise kw' = kw_showNoise (fst (resolve_showNoise kw2 (length (p_curves p))))"
    "kw_noise kw' = kw_noise (fst (resolve_showNoise kw2 (length (p_curves p))))"
    "kw_uncertainty kw' = kw_uncertainty (fst (resolve_showNoise kw2 (length (p_curves p))))"
    "\<forall>k < length (p_curves p).
       (c_noise (p_curves p ! k) \<noteq> None)
       = (snd (resolve_showNoise kw2 (length (p_curves p))) ! k)"
  using assms
proof (rule plot_group_returns)
  fix sp bound kw sty st dest d comparison b3 b2 top
  assume sty: "resolve_styles kw0 (length sp) = Inr (kw, sty)"
    and d: "draw_spectra env (kw_yrange kw = None) sty (length sp) 0 sp
       \<lparr> d_bound = bound, d_wvmax = [], d_flxmax = [], d_lg_n = lg_n st, d_curves = [] \<rparr>
     = Inr d"
    and kw': "kw' = alias_bound kw ((d_bound d)[3 := top + 2 * (0.02 * (b3 - b2))])"
    and p: "p = \<lparr> p_curves = d_curves d, p_comparison = comparison,
           p_annotations = snd (label_features (e_nsamples env) (d_bound d)
                                  (0.02 * (b3 - b2)) (d_wvmax d) (e_features env)
                                  (d_flxmax d, [])),
           p_bound = (d_bound d)[3 := top + 2 * (0.02 * (b3 - b2))], p_dest = dest \<rparr>"
  from draw_spectra_returns(1)[OF d] have
    cs: "length (d_curves d) = length sp"
    "\<forall>k < length sp. (c_noise (d_curves d ! k) \<noteq> None) = (s_showNoise sty ! k)"
    by auto
  from sty show ?thesis
  proof (rule resolve_styles_returns)
    fix kw2
    assume k: "kw_showNoise kw2 = kw_showNoise kw0" "kw_noise kw2 = kw_noise kw0"
      "kw_uncertainty kw2 = kw_uncertainty kw0"
      "kw = fst (resolve_showZero (fst (resolve_showNoise kw2 (length sp))) (length sp))"
      "s_showNoise sty = snd (resolve_showNoise kw2 (length sp))"
    show ?thesis
      by (rule that[of kw2]) (use k cs in \<open>simp_all add: kw' p\<close>)
  qed
qed


lemma plot_group_noise_given:
  assumes "plot_group env plts g ks0 = Inr (ks1, p)"
    and "kw_uncertainty (fst ks0) \<noteq> None \<or> kw_noise (fst ks0) \<noteq> None \<or>
         kw_showNoise (fst ks0) \<noteq> None"
    and "get_showNoise (fst ks0) 0 = Flags (l @ replicate m True)"
  shows "(kw_uncertainty (fst ks1) \<noteq> None \<or> kw_noise (fst ks1) \<noteq> None \<or>
          kw_showNoise (fst ks1) \<noteq> None) \<and>
         (\<exists>m'. get_showNoise (fst ks1) 0 = Flags (l @ replicate m' True)) \<and>
         (\<forall>k < length (p_curves p).
            (c_noise (p_curves p ! k) \<noteq> None) = (if k < length l then l ! k else True))"
proof -
  obtain kw0 st0 kw' st' where ks: "ks0 = (kw0, st0)" "ks1 = (kw', st')"
    by (cases ks0, cases ks1) auto
  from assms(1)[unfolded ks] show ?thesis
  proof (rule plot_group_noise)
    fix kw2
    let ?n = "length (p_curves p)"
    assume k: "kw_showNoise kw2 = kw_showNoise kw0" "kw_noise kw2 = kw_noise kw0"
      "kw_uncertainty kw2 = kw_uncertainty kw0"
      "kw_showNoise kw' = kw_showNoise (fst (resolve_showNoise kw2 ?n))"
      "kw_noise kw' = kw_noise (fst (resolve_showNoise kw2 ?n))"
      "kw_uncertainty kw' = kw_uncertainty (fst (resolve_showNoise kw2 ?n))"
      "\<forall>k < ?n. (c_noise (p_curves p ! k) \<noteq> None) = (snd (resolve_showNoise kw2 ?n) ! k)"
    have given: "kw_uncertainty kw2 \<noteq> None \<or> kw_noise kw2 \<noteq> None \<or> kw_showNoise kw2 \<noteq> None"
      using assms(2) k(1,2,3) ks by simp
    have get: "get_showNoise kw2 0 = Flags (l @ replicate m True)"
      using assms(3) get_showNoise_cong[OF k(1,2,3)] ks by simp
    note r = resolve_showNoise_given[OF given get, of ?n]
    have "get_showNoise kw' 0 = get_showNoise (fst (resolve_showNoise kw2 ?n)) 0"
      by (rule get_showNoise_cong[OF k(4,5,6)])
    with r(2) extend_to_padded[of ?n True l m]
    have "\<exists>m'. get_showNoise kw' 0 = Flags (l @ replicate m' True)" by auto
    moreover have "kw_uncertainty kw' \<noteq> None \<or> kw_noise kw' \<noteq> None \<or> kw_showNoise kw' \<noteq> None"
      using r(3) k(4,5,6) by simp
    moreover have "\<forall>k < ?n.
            (c_noise (p_curves p ! k) \<noteq> None) = (if k < length l then l ! k else True)"
      using k(7) r(1) by (simp add: extend_to_nth)
    ultimately show ?thesis using ks by simp
  qed
qed

lemma plot_group_noise_default:
  assumes "plot_group env plts g ks0 = Inr (ks1, p)"
    and "kw_uncertainty (fst ks0) = None \<and> kw_noise (fst ks0) = None \<and>
         kw_showNoise (fst ks0) = None"
  shows "(kw_uncertainty (fst ks1) = None \<and> kw_noise (fst ks1) = None \<and>
          kw_showNoise (fst ks1) = None) \<and>
         (\<forall>k < length (p_curves p). c_noise (p_curves p ! k) = None)"
proof -
  obtain kw0 st0 kw' st' where ks: "ks0 = (kw0, st0)" "ks1 = (kw', st')"
    by (cases ks0, cases ks1) auto
  from assms(1)[unfolded ks] show ?thesis
  proof (rule plot_group_noise)
    fix kw2
    let ?n = "length (p_curves p)"
    assume k: "kw_showNoise kw2 = kw_showNoise kw0" "kw_noise kw2 = kw_noise kw0"
      "kw_uncertainty kw2 = kw_uncertainty kw0"
      "kw_showNoise kw' = kw_showNoise (fst (resolve_showNoise kw2 ?n))"
      "kw_noise kw' = kw_noise (fst (resolve_showNoise kw2 ?n))"
      "kw_uncertainty kw' = kw_uncertainty (fst (resolve_showNoise kw2 ?n))"
      "\<forall>k < ?n. (c_noise (p_curves p ! k) \<noteq> None) = (snd (resolve_showNoise kw2 ?n) ! k)"
    have none: "kw_uncertainty kw2 = None" "kw_noise kw2 = None" "kw_showNoise kw2 = None"
      using assms(2) k(1,2,3) ks by simp_all
    note r = resolve_showNoise_default[OF none, of ?n]
    have "\<forall>j < ?n. c_noise (p_curves p ! j) = None"
      using k(7) r(1) by (metis nth_replicate)
    then show ?thesis using k(4,5,6) r ks by simp
  qed
qed

text \<open>
  C10. When \<open>showNoise\<close>, \<open>noise\<close> or \<open>uncertainty\<close> is given as a list, a spectrum of
  a plot group whose number within the group is below the length of the list has its
  uncertainty curve drawn when its entry says so, and every spectrum at or beyond the
  length of the list has it drawn: the missing entries are \<open>True\<close>. When none of the
  three keys is given, no uncertainty curve is drawn at all.
\<close>

theorem short_noise_list_padded_with_True:
  assumes "plotSpectrum args kw = Inr (out, kw')" and "p \<in> set (o_plots out)"
    and "ii < length (p_curves p)"
  shows "((kw_uncertainty kw \<noteq> None \<or> kw_noise kw \<noteq> None \<or> kw_showNoise kw \<noteq> None) \<and>
          get_showNoise kw 0 = Flags l
            \<longrightarrow> (c_noise (p_curves p ! ii) \<noteq> None) = (if ii < length l then l ! ii else True)) \<and>
         (kw_uncertainty kw = None \<and> kw_noise kw = None \<and> kw_showNoise kw = None
            \<longrightarrow> c_noise (p_curves p ! ii) = None)"
  using assms(1)
proof (cases rule: plotSpectrum_returns)
  case no_args
  with assms(2) show ?thesis by simp
next
  case (plots splist0 ignored multiplot splist spectra nplot numpages st)
  let ?kw1 = "fst (prep_legend (extend_features kw) (length spectra))"
  let ?env = "make_env kw (snd (prep_legend kw (length spectra))) nplot (length splist)"
  from assms(2) obtain i where i: "i < length (o_plots out)" "o_plots out ! i = p"
    by (auto simp: in_set_conv_nth)
  show ?thesis
  proof (intro conjI impI)
    assume a: "(kw_uncertainty kw \<noteq> None \<or> kw_noise kw \<noteq> None \<or> kw_showNoise kw \<noteq> None) \<and>
          get_showNoise kw 0 = Flags l"
    let ?I = "\<lambda>(n::nat) ks. (kw_uncertainty (fst ks) \<noteq> None \<or> kw_noise (fst ks) \<noteq> None \<or>
                 kw_showNoise (fst ks) \<noteq> None) \<and>
                (\<exists>m. get_showNoise (fst ks) 0 = Flags (l @ replicate m True))"
    let ?P = "\<lambda>(n::nat) (g::pyobj) q. \<forall>k < length (p_curves q).
                (c_noise (p_curves q ! k) \<noteq> None) = (if k < length l then l ! k else True)"
    have "?I (0 + length splist) (kw', st) \<and> length (o_plots out) = length splist \<and>
          (\<forall>i < length splist. ?P (0 + i) (splist ! i) (o_plots out ! i))"
    proof (rule plot_loop_invariant[OF plots(5), where I = ?I and P = ?P])
      have "get_showNoise ?kw1 0 = get_showNoise kw 0"
        by (rule get_showNoise_cong) simp_all
      with a have "get_showNoise ?kw1 0 = Flags (l @ replicate 0 True)" by simp
      then show "?I 0 (?kw1, \<lparr>pg_n = 0, lg_n = 0, fig = replicate (nat numpages) False\<rparr>)"
        using a by (simp del: replicate.simps)
    next
      fix j ks0 ks1 q
      assume "?I (0 + j) ks0" and g: "plot_group ?env (0 + j) (splist ! j) ks0 = Inr (ks1, q)"
      then obtain m where "kw_uncertainty (fst ks0) \<noteq> None \<or> kw_noise (fst ks0) \<noteq> None \<or>
                 kw_showNoise (fst ks0) \<noteq> None"
        "get_showNoise (fst ks0) 0 = Flags (l @ replicate m True)" by blast
      from plot_group_noise_given[OF g this]
      show "?I (0 + Suc j) ks1 \<and> ?P (0 + j) (splist ! j) q" by simp
    qed
    then have "\<forall>k < length (p_curves (o_plots out ! i)).
        (c_noise (p_curves (o_plots out ! i) ! k) \<noteq> None)
        = (if k < length l then l ! k else True)"
      using i(1) by simp
    then show "(c_noise (p_curves p ! ii) \<noteq> None) = (if ii < length l then l ! ii else True)"
      using i(2) assms(3) by simp
  next
    assume a: "kw_uncertainty kw = None \<and> kw_noise kw = None \<and> kw_showNoise kw = None"
    let ?I = "\<lambda>(n::nat) ks. kw_uncertainty (fst ks) = None \<and> kw_noise (fst ks) = None \<and>
                 kw_showNoise (fst ks) = None"
    let ?P = "\<lambda>(n::nat) (g::pyobj) q. \<forall>k < length (p_curves q). c_noise (p_curves q ! k) = None"
    have "?I (0 + length splist) (kw', st) \<and> length (o_plots out) = length splist \<and>
          (\<forall>i < length splist. ?P (0 + i) (splist ! i) (o_plots out ! i))"
    proof (rule plot_loop_invariant[OF plots(5), where I = ?I and P = ?P])
      show "?I 0 (?kw1, \<lparr>pg_n = 0, lg_n = 0, fig = replicate (nat numpages) False\<rparr>)"
        using a by simp
    next
      fix j ks0 ks1 q
      assume "?I (0 + j) ks0" and g: "plot_group ?env (0 + j) (splist ! j) ks0 = Inr (ks1, q)"
      from plot_group_noise_default[OF g this(1)]
      show "?I (0 + Suc j) ks1 \<and> ?P (0 + j) (splist ! j) q" by simp
    qed
    with i assms(3) show "c_noise (p_curves p ! ii) = None" by auto
  qed
qed

subsection \<open>Arguments that are neither spectra nor lists\<close>

text \<open>
  C3, amended. When the spectra are passed as separate arguments (several arguments,
  or one argument that is not a list) and at least one of them is a \<open>Spectrum\<close> or a
  list, every argument that is neither is reported and skipped: the call does what it
  does on the remaining arguments passed as one list, and reports the skipped ones.
  The elements of a list argument are not filtered.
\<close>

theorem separate_arguments_filtered:
  assumes "\<not> (length args = 1 \<and> is_list (args ! 0))"
    and "filter (\<lambda>a. is_Spectrum a \<or> is_list a) args \<noteq> []"
  shows "read_args args = Some (filter (\<lambda>a. is_Spectrum a \<or> is_list a) args,
                                filter (\<lambda>a. \<not> (is_Spectrum a \<or> is_list a)) args) \<and>
         plotSpectrum args kw =
           (case plotSpectrum [PyList (filter (\<lambda>a. is_Spectrum a \<or> is_list a) args)] kw of
              Inl e \<Rightarrow> Inl e
            | Inr (out, kw') \<Rightarrow>
                Inr (out\<lparr>o_ignored := filter (\<lambda>a. \<not> (is_Spectrum a \<or> is_list a)) args\<rparr>, kw'))"
proof -
  from assms(2) have ne: "args \<noteq> []" by auto
  with assms(1) have r: "read_args args = Some (filter (\<lambda>a. is_Spectrum a \<or> is_list a) args,
                                filter (\<lambda>a. \<not> (is_Spectrum a \<or> is_list a)) args)"
    by (auto simp: read_args_def)
  show ?thesis
    unfolding plotSpectrum_def r read_args_list
    by (auto simp: bind_def split: sum.splits prod.splits)
qed

subsection \<open>Index errors of the option lists\<close>

lemma draw_one_error:
  assumes "draw_one env ny sty n ii a d = Inl e"
    and "ii < length (s_colors sty)" and "ii < length (s_linestyle sty)"
    and "d_lg_n d < length (e_legend env)"
  shows "e \<notin> option_sites"
  using assms unfolding draw_one_def Let_def option_sites_def
  by (auto simp: bind_eq_Inl bind_eq_Inr index_eq_Inl index_eq_Inr shifted_def
           split: if_splits prod.splits)


lemma draw_spectra_error:
  assumes "draw_spectra env ny sty n ii rest d = Inl e"
    and "ii + length rest \<le> length (s_colors sty)"
    and "ii + length rest \<le> length (s_linestyle sty)"
    and "d_lg_n d + length rest \<le> length (e_legend env)"
  shows "e \<notin> option_sites"
  using assms
proof (induction rest arbitrary: ii d)
  case Nil
  then show ?case by simp
next
  case (Cons a rest)
  from Cons.prems(1) consider
    (one) "draw_one env ny sty n ii a d = Inl e"
  | (more) d1 where "draw_one env ny sty n ii a d = Inr d1"
      "draw_spectra env ny sty n (Suc ii) rest d1 = Inl e"
    by (auto simp: bind_eq_Inl)
  then show ?case
  proof cases
    case one
    then show ?thesis using Cons.prems(2,3,4) by (intro draw_one_error) auto
  next
    case more
    from more(1) have "d_lg_n d1 = d_lg_n d + 1" by (rule draw_one_returns)
    with Cons.prems(2,3,4) show ?thesis by (intro Cons.IH[OF more(2)]) auto
  qed
qed

lemma place_lg_n: "place env st plts = Inr (st', dest) \<Longrightarrow> lg_n st' = lg_n st"
  by (auto simp: place_def Let_def bind_eq_Inr split: if_splits)

lemma place_error: "place env st plts = Inl e \<Longrightarrow> e \<notin> option_sites"
  by (auto simp: place_def Let_def bind_eq_Inl bind_eq_Inr index_eq_Inl py_get_def option_sites_def
           split: if_splits)

lemma group_spectra_error: "group_spectra g = Inl e \<Longrightarrow> e \<notin> option_sites"
  by (auto simp: group_spectra_def option_sites_def split: if_splits)

lemma numpy_max_error: "numpy_max l = Inl e \<Longrightarrow> e \<notin> option_sites"
  by (auto simp: numpy_max_def option_sites_def split: if_splits)

lemma resolve_bound_error: "resolve_bound kw sp z = Inl e \<Longrightarrow> e \<notin> option_sites"
  by (auto simp: resolve_bound_def bind_eq_Inl dest: numpy_max_error)

lemma resolve_styles_error: "resolve_styles kw n = Inl e \<Longrightarrow> e \<notin> option_sites"
  by (auto simp: resolve_styles_def resolve_colors_def bind_eq_Inl Let_def split_beta option_sites_def
           split: option.splits if_splits)

lemma draw_comparison_error:
  "draw_comparison env kw sty = Inl e \<Longrightarrow> s_colors sty \<noteq> [] \<Longrightarrow> s_linestyle sty \<noteq> [] \<Longrightarrow>
   e \<notin> option_sites"
  by (auto simp: draw_comparison_def bind_eq_Inl index_eq_Inl split: if_splits)

lemma plot_group_lg_n:
  assumes "plot_group env plts g (kw0, st0) = Inr ((kw', st'), p)"
  shows "lg_n st' = lg_n st0 + length (p_spectra p)"
  using assms
proof (rule plot_group_returns)
  fix sp bound kw sty st dest d comparison b3 b2 top
  assume pl: "place env st0 plts = Inr (st, dest)"
    and d: "draw_spectra env (kw_yrange kw = None) sty (length sp) 0 sp
       \<lparr> d_bound = bound, d_wvmax = [], d_flxmax = [], d_lg_n = lg_n st, d_curves = [] \<rparr>
     = Inr d"
    and st': "st' = st\<lparr>lg_n := d_lg_n d\<rparr>"
    and g: "group_spectra g = Inr sp"
  from plot_group_spectra[OF assms] g have "p_spectra p = sp" by simp
  with draw_spectra_returns(2)[OF d] place_lg_n[OF pl] st' show ?thesis by simp
qed

lemma plot_group_error:
  assumes "plot_group env plts g (kw0, st0) = Inl e"
    and "lg_n st0 + length (items g) \<le> length (e_legend env)"
  shows "e \<notin> option_sites"
proof -
  have idx: "\<And>l i. index ''bound'' l i = Inl e \<Longrightarrow> e \<notin> option_sites"
    "\<And>l i. index ''multilayout'' (l::int list) i = Inl e \<Longrightarrow> e \<notin> option_sites"
    by (auto simp: index_eq_Inl option_sites_def)
  from assms(1) consider
    (a) "group_spectra g = Inl e"
  | (b) sp where "group_spectra g = Inr sp"
      "resolve_bound kw0 sp (kwget (replicate (length sp) 0) (kw_zeropoint kw0)) = Inl e"
  | (c) sp where "group_spectra g = Inr sp" "resolve_styles kw0 (length sp) = Inl e"
  | (d) "place env st0 plts = Inl e"
  | (e) sp kw sty st dest bound where "group_spectra g = Inr sp"
      "resolve_styles kw0 (length sp) = Inr (kw, sty)" "place env st0 plts = Inr (st, dest)"
      "draw_spectra env (kw_yrange kw = None) sty (length sp) 0 sp
       \<lparr> d_bound = bound, d_wvmax = [], d_flxmax = [], d_lg_n = lg_n st, d_curves = [] \<rparr>
       = Inl e"
  | (f) sp kw sty where "group_spectra g = Inr sp"
      "resolve_styles kw0 (length sp) = Inr (kw, sty)" "draw_comparison env kw sty = Inl e"
  | (g) l i where "index ''bound'' (l::real list) i = Inl e"
  | (h) l i where "index ''multilayout'' (l::int list) i = Inl e"
  | (i) l where "numpy_max l = Inl e"
    unfolding plot_group_def Let_def
    by (auto simp: bind_eq_Inl split: prod.splits)
  then show ?thesis
  proof cases
    case a then show ?thesis by (rule group_spectra_error)
  next
    case b then show ?thesis by (auto dest: resolve_bound_error)
  next
    case c then show ?thesis by (auto dest: resolve_styles_error)
  next
    case d then show ?thesis by (rule place_error)
  next
    case e
    from group_spectra_returns[OF e(1)] have len: "length (items g) = length sp" by simp
    from e(2) have "length sp \<le> length (s_colors sty)" "length sp \<le> length (s_linestyle sty)"
      by (rule resolve_styles_returns, simp)+
    with e(4) assms(2) len place_lg_n[OF e(3)] show ?thesis
      by (intro draw_spectra_error[OF e(4)]) auto
  next
    case f
    from group_spectra_returns[OF f(1)] have "sp \<noteq> []" by simp
    moreover from f(2) have "length sp \<le> length (s_colors sty)"
      "length sp \<le> length (s_linestyle sty)"
      by (rule resolve_styles_returns, simp)+
    ultimately show ?thesis by (intro draw_comparison_error[OF f(3)]) auto
  next
    case g then show ?thesis by (rule idx)
  next
    case h then show ?thesis by (rule idx)
  next
    case i then show ?thesis by (rule numpy_max_error)
  qed
qed


lemma flatten_Cons:
  assumes "flatten (g # gs) = Inr spectra"
  obtains l where "is_list g" "flatten gs = Inr l" "spectra = items g @ l"
  using assms by (auto simp: bind_eq_Inr split: if_splits)

lemma plot_loop_error:
  assumes "plot_loop env plts gs (kw, st) = Inl e"
    and "flatten gs = Inr spectra"
    and "lg_n st + length spectra \<le> length (e_legend env)"
  shows "e \<notin> option_sites"
  using assms
proof (induction gs arbitrary: plts kw st spectra)
  case Nil
  then show ?case by simp
next
  case (Cons g gs)
  from Cons.prems(2) obtain l where l: "is_list g" "flatten gs = Inr l" "spectra = items g @ l"
    by (rule flatten_Cons)
  from Cons.prems(1) consider
    (one) "plot_group env plts g (kw, st) = Inl e"
  | (more) kw1 st1 p where "plot_group env plts g (kw, st) = Inr ((kw1, st1), p)"
      "plot_loop env (Suc plts) gs (kw1, st1) = Inl e"
    by (auto simp: bind_eq_Inl split: prod.splits)
  then show ?case
  proof cases
    case one
    then show ?thesis using Cons.prems(3) l(3) by (intro plot_group_error) auto
  next
    case more
    from plot_group_spectra[OF more(1)] have "length (p_spectra p) = length (items g)"
      by (auto dest: group_spectra_returns(1))
    with plot_group_lg_n[OF more(1)] Cons.prems(3) l(3)
    have "lg_n st1 + length l \<le> length (e_legend env)" by simp
    from Cons.IH[OF more(2) l(2) this] show ?thesis .
  qed
qed

lemma save_pages_error: "save_pages pdf figures = Inl e \<Longrightarrow> e \<notin> option_sites"
  by (induction figures) (auto simp: bind_eq_Inl option_sites_def split: if_splits)

lemma flatten_error: "flatten gs = Inl e \<Longrightarrow> e \<notin> option_sites"
  by (induction gs) (auto simp: bind_eq_Inl option_sites_def split: if_splits)

lemma setup_multiplot_error: "setup_multiplot m l = Inl e \<Longrightarrow> e \<notin> option_sites"
  by (auto simp: setup_multiplot_def Let_def bind_eq_Inl option_sites_def
           dest: flatten_error[unfolded option_sites_def] split: if_splits)

lemma page_setup_error: "page_setup kw n = Inl e \<Longrightarrow> e \<notin> option_sites"
  by (auto simp: page_setup_def setup_pages_def Let_def bind_eq_Inl index_eq_Inl option_sites_def
           split: if_splits)

lemma prep_legend_length: "n \<le> length (snd (prep_legend kw n))"
  by (simp add: prep_legend_def Let_def)

lemma plotSpectrum_error:
  assumes "plotSpectrum args kw = Inl e"
  shows "e \<notin> option_sites"
proof -
  from assms consider
    (a) "e = NotModelled ''nsamples = 0''"
  | (b) m l where "setup_multiplot m l = Inl e"
  | (c) l where "flatten l = Inl e"
  | (d) n where "page_setup kw n = Inl e"
  | (e) splist spectra nplot numpages where "flatten splist = Inr spectra"
      "plot_loop (make_env kw (snd (prep_legend kw (length spectra))) nplot (length splist))
         0 splist
         (fst (prep_legend (extend_features kw) (length spectra)),
          \<lparr> pg_n = 0, lg_n = 0, fig = replicate (nat numpages) False \<rparr>) = Inl e"
  | (f) figures where "save_document kw figures = Inl e"
    unfolding plotSpectrum_def
    by (auto simp: bind_eq_Inl split: if_splits option.splits prod.splits)
  then show ?thesis
  proof cases
    case a then show ?thesis by (simp add: option_sites_def)
  next
    case b then show ?thesis by (rule setup_multiplot_error)
  next
    case c then show ?thesis by (rule flatten_error)
  next
    case d then show ?thesis by (rule page_setup_error)
  next
    case e
    show ?thesis
      by (rule plot_loop_error[OF e(2) e(1)]) (simp add: make_env_def prep_legend_length)
  next
    case f then show ?thesis
      by (auto simp: save_document_def dest: save_pages_error split: if_splits)
  qed
qed

subsection \<open>The entries of the option lists\<close>

lemma extend_to_index:
  "k < length (extend_to n d l) \<Longrightarrow> extend_to n d l ! k = (if k < length l then l ! k else d)"
  by (auto simp: extend_to_def nth_append)

lemma extend_to_pad: "\<exists>m. extend_to n d l = l @ replicate m d"
  by (simp add: extend_to_def)

lemma kwget2_default:
  "extend_to n d (kwget (kwget (replicate n d) a) b) = extend_to n d (kwget (kwget [] a) b)"
  by (cases a; cases b) (simp_all add: extend_to_def)

lemma resolve_linestyle_given:
  "snd (resolve_linestyle kw n) = extend_to n ''steps'' (given_linestyle kw)"
  "given_linestyle (fst (resolve_linestyle kw n))
     = (if kw_linestyles kw = None \<and> kw_linestyle kw = None then []
        else extend_to n ''steps'' (given_linestyle kw))"
  by (auto simp: resolve_linestyle_def given_linestyle_def Let_def kwget2_default)

lemma given_linestyle_cong:
  "kw_linestyle kw1 = kw_linestyle kw2 \<Longrightarrow> kw_linestyles kw1 = kw_linestyles kw2 \<Longrightarrow>
   given_linestyle kw1 = given_linestyle kw2"
  by (simp add: given_linestyle_def)

lemma given_colors_cong:
  "kw_colors kw1 = kw_colors kw2 \<Longrightarrow> kw_color kw1 = kw_color kw2 \<Longrightarrow>
   given_colors kw1 = given_colors kw2"
  by (simp add: given_colors_def)

lemma linestyle_frame [simp]:
  "kw_linestyle (put_colors kw l) = kw_linestyle kw"
  "kw_linestyles (put_colors kw l) = kw_linestyles kw"
  "kw_linestyle (fst (resolve_colorsUnc kw n c)) = kw_linestyle kw"
  "kw_linestyles (fst (resolve_colorsUnc kw n c)) = kw_linestyles kw"
  "kw_linestyle (fst (resolve_showNoise kw n)) = kw_linestyle kw"
  "kw_linestyles (fst (resolve_showNoise kw n)) = kw_linestyles kw"
  "kw_linestyle (fst (resolve_showZero kw n)) = kw_linestyle kw"
  "kw_linestyles (fst (resolve_showZero kw n)) = kw_linestyles kw"
  "kw_linestyle (alias_bound kw b) = kw_linestyle kw"
  "kw_linestyles (alias_bound kw b) = kw_linestyles kw"
  "kw_linestyle (fst (prep_legend kw n)) = kw_linestyle kw"
  "kw_linestyles (fst (prep_legend kw n)) = kw_linestyles kw"
  "kw_linestyle (extend_features kw) = kw_linestyle kw"
  "kw_linestyles (extend_features kw) = kw_linestyles kw"
  by (simp_all add: put_colors_def resolve_colorsUnc_def resolve_showNoise_def put_showNoise_def
        resolve_showZero_def alias_bound_def prep_legend_def put_legend_def extend_features_def
        Let_def split: flag.splits option.splits)

lemma colors_frame [simp]:
  "kw_colors (fst (resolve_linestyle kw n)) = kw_colors kw"
  "kw_color (fst (resolve_linestyle kw n)) = kw_color kw"
  "kw_colorMap (fst (resolve_linestyle kw n)) = kw_colorMap kw"
  "kw_colorScheme (fst (resolve_linestyle kw n)) = kw_colorScheme kw"
  "kw_colorsUnc (fst (resolve_linestyle kw n)) = kw_colorsUnc kw"
  "kw_colorUnc (fst (resolve_linestyle kw n)) = kw_colorUnc kw"
  "kw_colors (fst (resolve_showNoise kw n)) = kw_colors kw"
  "kw_color (fst (resolve_showNoise kw n)) = kw_color kw"
  "kw_colorMap (fst (resolve_showNoise kw n)) = kw_colorMap kw"
  "kw_colorScheme (fst (resolve_showNoise kw n)) = kw_colorScheme kw"
  "kw_colors (fst (resolve_showZero kw n)) = kw_colors kw"
  "kw_color (fst (resolve_showZero kw n)) = kw_color kw"
  "kw_colorMap (fst (resolve_showZero kw n)) = kw_colorMap kw"
  "kw_colorScheme (fst (resolve_showZero kw n)) = kw_colorScheme kw"
  "kw_colors (alias_bound kw b) = kw_colors kw"
  "kw_color (alias_bound kw b) = kw_color kw"
  "kw_colorMap (alias_bound kw b) = kw_colorMap kw"
  "kw_colorScheme (alias_bound kw b) = kw_colorScheme kw"
  "kw_colors (fst (prep_legend kw n)) = kw_colors kw"
  "kw_color (fst (prep_legend kw n)) = kw_color kw"
  "kw_colorMap (fst (prep_legend kw n)) = kw_colorMap kw"
  "kw_colorScheme (fst (prep_legend kw n)) = kw_colorScheme kw"
  "kw_colors (extend_features kw) = kw_colors kw"
  "kw_color (extend_features kw) = kw_color kw"
  "kw_colorMap (extend_features kw) = kw_colorMap kw"
  "kw_colorScheme (extend_features kw) = kw_colorScheme kw"
  by (simp_all add: resolve_linestyle_def resolve_showNoise_def put_showNoise_def
        resolve_showZero_def alias_bound_def prep_legend_def put_legend_def extend_features_def
        Let_def split: flag.splits option.splits)

lemma put_colors_given:
  "given_colors (put_colors kw l) = (if kw_color kw = None \<and> kw_colors kw = None then [] else l)"
  "kw_colorMap (put_colors kw l) = kw_colorMap kw"
  "kw_colorScheme (put_colors kw l) = kw_colorScheme kw"
  "kw_colorsUnc (put_colors kw l) = kw_colorsUnc kw"
  "kw_colorUnc (put_colors kw l) = kw_colorUnc kw"
  "(kw_color (put_colors kw l) = None \<and> kw_colors (put_colors kw l) = None)
     = (kw_color kw = None \<and> kw_colors kw = None)"
  by (auto simp: put_colors_def given_colors_def)

lemma resolve_colors_given:
  assumes "resolve_colors kw n = Inr (kw', colors)"
    and "kw_colorMap kw = None" and "kw_colorScheme kw = None"
  shows "colors = extend_to n (Named ''k'') (given_colors kw)"
    and "kw' = put_colors kw colors"
  using assms
  by (auto simp: resolve_colors_def Let_def given_colors_def kwget2_default)

lemma resolve_colors_linestyle:
  assumes "resolve_colors kw n = Inr (kw', colors)"
  shows "kw_linestyle kw' = kw_linestyle kw" "kw_linestyles kw' = kw_linestyles kw"
  using assms
  by (auto simp: resolve_colors_def Let_def split: option.splits if_splits)

lemma resolve_colorsUnc_given:
  assumes "n \<le> length colors"
    and "kw_color kw = None \<and> kw_colors kw = None \<or> given_colors kw = colors"
  shows "given_colors (fst (resolve_colorsUnc kw n colors)) = given_colors kw"
    and "kw_colorMap (fst (resolve_colorsUnc kw n colors)) = kw_colorMap kw"
    and "kw_colorScheme (fst (resolve_colorsUnc kw n colors)) = kw_colorScheme kw"
  using assms
  by (auto simp: resolve_colorsUnc_def Let_def given_colors_def put_colors_def extend_to_def)


lemma legend_frame [simp]:
  "kw_legend (fst (resolve_linestyle kw n)) = kw_legend kw"
  "kw_legends (fst (resolve_linestyle kw n)) = kw_legends kw"
  "kw_label (fst (resolve_linestyle kw n)) = kw_label kw"
  "kw_labels (fst (resolve_linestyle kw n)) = kw_labels kw"
  "kw_legend (put_colors kw l) = kw_legend kw"
  "kw_legends (put_colors kw l) = kw_legends kw"
  "kw_label (put_colors kw l) = kw_label kw"
  "kw_labels (put_colors kw l) = kw_labels kw"
  "kw_legend (fst (resolve_colorsUnc kw n c)) = kw_legend kw"
  "kw_legends (fst (resolve_colorsUnc kw n c)) = kw_legends kw"
  "kw_label (fst (resolve_colorsUnc kw n c)) = kw_label kw"
  "kw_labels (fst (resolve_colorsUnc kw n c)) = kw_labels kw"
  "kw_legend (fst (resolve_showNoise kw n)) = kw_legend kw"
  "kw_legends (fst (resolve_showNoise kw n)) = kw_legends kw"
  "kw_label (fst (resolve_showNoise kw n)) = kw_label kw"
  "kw_labels (fst (resolve_showNoise kw n)) = kw_labels kw"
  "kw_legend (fst (resolve_showZero kw n)) = kw_legend kw"
  "kw_legends (fst (resolve_showZero kw n)) = kw_legends kw"
  "kw_label (fst (resolve_showZero kw n)) = kw_label kw"
  "kw_labels (fst (resolve_showZero kw n)) = kw_labels kw"
  "kw_legend (alias_bound kw b) = kw_legend kw"
  "kw_legends (alias_bound kw b) = kw_legends kw"
  "kw_label (alias_bound kw b) = kw_label kw"
  "kw_labels (alias_bound kw b) = kw_labels kw"
  "kw_legend (extend_features kw) = kw_legend kw"
  "kw_legends (extend_features kw) = kw_legends kw"
  "kw_label (extend_features kw) = kw_label kw"
  "kw_labels (extend_features kw) = kw_labels kw"
  by (simp_all add: resolve_linestyle_def put_colors_def resolve_colorsUnc_def
        resolve_showNoise_def put_showNoise_def resolve_showZero_def alias_bound_def
        extend_features_def Let_def split: flag.splits option.splits)

lemma given_legend_cong:
  "kw_legend kw1 = kw_legend kw2 \<Longrightarrow> kw_legends kw1 = kw_legends kw2 \<Longrightarrow>
   kw_label kw1 = kw_label kw2 \<Longrightarrow> kw_labels kw1 = kw_labels kw2 \<Longrightarrow>
   given_legend kw1 = given_legend kw2"
  by (simp add: given_legend_def)

lemma resolve_colors_legend:
  assumes "resolve_colors kw n = Inr (kw', colors)"
  shows "kw_legend kw' = kw_legend kw" "kw_legends kw' = kw_legends kw"
    "kw_label kw' = kw_label kw" "kw_labels kw' = kw_labels kw"
  using assms
  by (auto simp: resolve_colors_def Let_def split: option.splits if_splits)

lemma prep_legend_given:
  "snd (prep_legend kw n) = extend_to n [] (given_legend kw)"
  "\<exists>m. given_legend (fst (prep_legend kw n)) = given_legend kw @ replicate m []"
proof -
  have e: "extend_to n [] (get_legend kw n) = extend_to n [] (given_legend kw)"
    unfolding get_legend_def given_legend_def
    by (cases "kw_legend kw"; cases "kw_legends kw"; cases "kw_label kw"; cases "kw_labels kw")
       (simp_all add: extend_to_def)
  show "snd (prep_legend kw n) = extend_to n [] (given_legend kw)"
    by (simp add: prep_legend_def Let_def e)
  have "given_legend (fst (prep_legend kw n))
        = (if kw_legend kw = None \<and> kw_legends kw = None \<and> kw_label kw = None \<and>
              kw_labels kw = None then [] else extend_to n [] (given_legend kw))"
    unfolding prep_legend_def Let_def e
    by (auto simp: put_legend_def given_legend_def)
  moreover have "kw_legend kw = None \<and> kw_legends kw = None \<and> kw_label kw = None \<and>
              kw_labels kw = None \<Longrightarrow> given_legend kw = []"
    by (simp add: given_legend_def)
  ultimately show "\<exists>m. given_legend (fst (prep_legend kw n)) = given_legend kw @ replicate m []"
    using extend_to_pad[of n "[]" "given_legend kw"] by auto
qed

lemma resolve_colors_scheme:
  assumes "resolve_colors kw n = Inr (kw', colors)"
  shows "kw_colorMap kw' = kw_colorMap kw" "kw_colorScheme kw' = kw_colorScheme kw"
  using assms
  by (auto simp: resolve_colors_def Let_def put_colors_given split: option.splits if_splits)

lemma resolve_colorsUnc_scheme:
  "kw_colorMap (fst (resolve_colorsUnc kw n colors)) = kw_colorMap kw"
  "kw_colorScheme (fst (resolve_colorsUnc kw n colors)) = kw_colorScheme kw"
  by (auto simp: resolve_colorsUnc_def Let_def put_colors_def)

lemma resolve_styles_given:
  assumes "resolve_styles kw n = Inr (kw', sty)"
  shows "s_linestyle sty = extend_to n ''steps'' (given_linestyle kw)"
    and "\<exists>m. given_linestyle kw' = given_linestyle kw @ replicate m ''steps''"
    and "kw_colorMap kw' = kw_colorMap kw" and "kw_colorScheme kw' = kw_colorScheme kw"
    and "kw_colorMap kw = None \<Longrightarrow> kw_colorScheme kw = None \<Longrightarrow>
         s_colors sty = extend_to n (Named ''k'') (given_colors kw)"
    and "kw_colorMap kw = None \<Longrightarrow> kw_colorScheme kw = None \<Longrightarrow>
         \<exists>m. given_colors kw' = given_colors kw @ replicate m (Named ''k'')"
    and "given_legend kw' = given_legend kw"
proof -
  let ?kw1 = "fst (resolve_linestyle kw n)"
  from assms obtain kw2 colors where
    c: "resolve_colors ?kw1 n = Inr (kw2, colors)" and
    k: "kw' = fst (resolve_showZero (fst (resolve_showNoise (fst (resolve_colorsUnc kw2 n colors)) n)) n)" and
    s: "s_linestyle sty = snd (resolve_linestyle kw n)" "s_colors sty = colors"
    by (auto simp: resolve_styles_def bind_eq_Inr Let_def split_beta)
  show "s_linestyle sty = extend_to n ''steps'' (given_linestyle kw)"
    by (simp add: s resolve_linestyle_given(1))
  have "given_linestyle kw' = given_linestyle ?kw1"
    by (rule given_linestyle_cong) (simp_all add: k resolve_colors_linestyle[OF c])
  moreover have "kw_linestyles kw = None \<and> kw_linestyle kw = None \<Longrightarrow> given_linestyle kw = []"
    by (simp add: given_linestyle_def)
  ultimately show "\<exists>m. given_linestyle kw' = given_linestyle kw @ replicate m ''steps''"
    using extend_to_pad[of n "''steps''" "given_linestyle kw"]
    by (auto simp: resolve_linestyle_given(2))
  show m: "kw_colorMap kw' = kw_colorMap kw" "kw_colorScheme kw' = kw_colorScheme kw"
    by (simp_all add: k resolve_colorsUnc_scheme resolve_colors_scheme[OF c])
  have g1: "given_colors ?kw1 = given_colors kw"
    by (rule given_colors_cong) simp_all
  show "given_legend kw' = given_legend kw"
    by (rule given_legend_cong) (simp_all add: k resolve_colors_legend[OF c])
  {
    assume n: "kw_colorMap kw = None" "kw_colorScheme kw = None"
    then have n1: "kw_colorMap ?kw1 = None" "kw_colorScheme ?kw1 = None" by simp_all
    note r = resolve_colors_given[OF c n1]
    from r(1) g1 show "s_colors sty = extend_to n (Named ''k'') (given_colors kw)"
      by (simp add: s)
    have len: "n \<le> length colors" using r(1) by (simp add: extend_to_length)
    have k2: "kw_color kw2 = None \<and> kw_colors kw2 = None \<or> given_colors kw2 = colors"
      unfolding r(2) by (auto simp: put_colors_given)
    have "given_colors kw' = given_colors (fst (resolve_colorsUnc kw2 n colors))"
      by (rule given_colors_cong) (simp_all add: k)
    also have "\<dots> = given_colors kw2" by (rule resolve_colorsUnc_given(1)[OF len k2])
    also have "\<dots> = (if kw_color ?kw1 = None \<and> kw_colors ?kw1 = None then [] else colors)"
      unfolding r(2) by (rule put_colors_given(1))
    finally have "given_colors kw'
       = (if kw_color kw = None \<and> kw_colors kw = None then []
          else extend_to n (Named ''k'') (given_colors kw))"
      using r(1) g1 by simp
    moreover have "kw_color kw = None \<and> kw_colors kw = None \<Longrightarrow> given_colors kw = []"
      by (simp add: given_colors_def)
    ultimately show "\<exists>m. given_colors kw' = given_colors kw @ replicate m (Named ''k'')"
      using extend_to_pad[of n "Named ''k''" "given_colors kw"] by auto
  }
qed

lemma padded_nth:
  "(if i < length (l @ replicate m d) then (l @ replicate m d) ! i else d)
   = (if i < length l then l ! i else d)"
  by (auto simp: nth_append)

lemma padded_twice:
  "\<exists>m'. l' = (l @ replicate m d) @ replicate m' d \<Longrightarrow> \<exists>m'. l' = l @ replicate m' d"
  by (auto simp flip: replicate_add)

lemma alias_bound_given [simp]:
  "given_linestyle (alias_bound kw b) = given_linestyle kw"
  "given_colors (alias_bound kw b) = given_colors kw"
  "given_legend (alias_bound kw b) = given_legend kw"
  by (simp_all add: given_linestyle_def given_colors_def given_legend_def)

lemma plot_group_styles:
  assumes "plot_group env plts g (kw0, st0) = Inr ((kw', st'), p)"
  shows "(\<exists>m. given_linestyle kw' = given_linestyle kw0 @ replicate m ''steps'') \<and>
         kw_colorMap kw' = kw_colorMap kw0 \<and> kw_colorScheme kw' = kw_colorScheme kw0 \<and>
         (kw_colorMap kw0 = None \<and> kw_colorScheme kw0 = None \<longrightarrow>
            (\<exists>m. given_colors kw' = given_colors kw0 @ replicate m (Named ''k''))) \<and>
         given_legend kw' = given_legend kw0 \<and>
         lg_n st' = lg_n st0 + length (p_curves p) \<and>
         (\<forall>ii < length (p_curves p).
            c_linestyle (p_curves p ! ii)
              = (if ii < length (given_linestyle kw0) then given_linestyle kw0 ! ii
                 else ''steps'') \<and>
            (kw_colorMap kw0 = None \<and> kw_colorScheme kw0 = None \<longrightarrow>
               c_color (p_curves p ! ii)
                 = (if ii < length (given_colors kw0) then given_colors kw0 ! ii
                    else Named ''k'')) \<and>
            lg_n st0 + ii < length (e_legend env) \<and>
            c_label (p_curves p ! ii) = e_legend env ! (lg_n st0 + ii))"
  using assms
proof (rule plot_group_returns)
  fix sp bound kw sty st dest d comparison b3 b2 top
  assume sty: "resolve_styles kw0 (length sp) = Inr (kw, sty)"
    and pl: "place env st0 plts = Inr (st, dest)"
    and d: "draw_spectra env (kw_yrange kw = None) sty (length sp) 0 sp
       \<lparr> d_bound = bound, d_wvmax = [], d_flxmax = [], d_lg_n = lg_n st, d_curves = [] \<rparr>
     = Inr d"
    and kw': "kw' = alias_bound kw ((d_bound d)[3 := top + 2 * (0.02 * (b3 - b2))])"
    and st': "st' = st\<lparr>lg_n := d_lg_n d\<rparr>"
    and p: "p = \<lparr> p_curves = d_curves d, p_comparison = comparison,
           p_annotations = snd (label_features (e_nsamples env) (d_bound d)
                                  (0.02 * (b3 - b2)) (d_wvmax d) (e_features env)
                                  (d_flxmax d, [])),
           p_bound = (d_bound d)[3 := top + 2 * (0.02 * (b3 - b2))], p_dest = dest \<rparr>"
  note s = resolve_styles_given[OF sty]
  have lg: "lg_n st = lg_n st0" by (rule place_lg_n[OF pl])
  from draw_spectra_returns(1)[OF d] lg have
    cs: "length (d_curves d) = length sp"
    "\<forall>k < length sp.
       c_linestyle (d_curves d ! k) = s_linestyle sty ! k \<and>
       c_color (d_curves d ! k) = s_colors sty ! k \<and>
       lg_n st0 + k < length (e_legend env) \<and>
       c_label (d_curves d ! k) = e_legend env ! (lg_n st0 + k)"
    by auto
  have n: "lg_n st' = lg_n st0 + length (p_curves p)"
    using draw_spectra_returns(2)[OF d] lg cs(1) by (simp add: st' p)
  have l: "\<forall>ii < length sp. s_linestyle sty ! ii
            = (if ii < length (given_linestyle kw0) then given_linestyle kw0 ! ii else ''steps'')"
    unfolding s(1) by (simp add: extend_to_index less_le_trans[OF _ extend_to_length])
  have c: "kw_colorMap kw0 = None \<and> kw_colorScheme kw0 = None \<longrightarrow>
           (\<forall>ii < length sp. s_colors sty ! ii
            = (if ii < length (given_colors kw0) then given_colors kw0 ! ii else Named ''k''))"
  proof
    assume a: "kw_colorMap kw0 = None \<and> kw_colorScheme kw0 = None"
    then have "s_colors sty = extend_to (length sp) (Named ''k'') (given_colors kw0)"
      using s(5) by simp
    then show "\<forall>ii < length sp. s_colors sty ! ii
            = (if ii < length (given_colors kw0) then given_colors kw0 ! ii else Named ''k'')"
      by (simp add: extend_to_index less_le_trans[OF _ extend_to_length])
  qed
  have k1: "\<exists>m. given_linestyle kw' = given_linestyle kw0 @ replicate m ''steps''"
    using s(2) by (simp add: kw')
  have k2: "kw_colorMap kw' = kw_colorMap kw0" "kw_colorScheme kw' = kw_colorScheme kw0"
    using s(3,4) by (simp_all add: kw')
  have k3: "kw_colorMap kw0 = None \<and> kw_colorScheme kw0 = None \<longrightarrow>
            (\<exists>m. given_colors kw' = given_colors kw0 @ replicate m (Named ''k''))"
    using s(6) by (simp add: kw')
  have k4: "given_legend kw' = given_legend kw0" using s(7) by (simp add: kw')
  have pc: "p_curves p = d_curves d" by (simp add: p)
  show ?thesis
    unfolding pc using k1 k2 k3 k4 n[unfolded pc] cs l c by simp
qed

lemma plot_group_styles_padded:
  assumes "plot_group env plts g ks0 = Inr (ks1, p)"
    and "given_linestyle (fst ks0) = ls @ replicate m ''steps''"
    and "kw_colorMap (fst ks0) = None \<and> kw_colorScheme (fst ks0) = None \<longrightarrow>
         given_colors (fst ks0) = cs @ replicate m2 (Named ''k'')"
  shows "(\<exists>m'. given_linestyle (fst ks1) = ls @ replicate m' ''steps'') \<and>
         kw_colorMap (fst ks1) = kw_colorMap (fst ks0) \<and>
         kw_colorScheme (fst ks1) = kw_colorScheme (fst ks0) \<and>
         (kw_colorMap (fst ks0) = None \<and> kw_colorScheme (fst ks0) = None \<longrightarrow>
            (\<exists>m'. given_colors (fst ks1) = cs @ replicate m' (Named ''k''))) \<and>
         given_legend (fst ks1) = given_legend (fst ks0) \<and>
         (\<forall>ii < length (p_curves p).
            c_linestyle (p_curves p ! ii) = (if ii < length ls then ls ! ii else ''steps'') \<and>
            (kw_colorMap (fst ks0) = None \<and> kw_colorScheme (fst ks0) = None \<longrightarrow>
               c_color (p_curves p ! ii) = (if ii < length cs then cs ! ii else Named ''k'')))"
proof -
  obtain kw0 st0 kw' st' where ks: "ks0 = (kw0, st0)" "ks1 = (kw', st')"
    by (cases ks0, cases ks1) auto
  note f = plot_group_styles[OF assms(1)[unfolded ks]]
  from assms(2) ks have l0: "given_linestyle kw0 = ls @ replicate m ''steps''" by simp
  from f have "\<exists>m'. given_linestyle kw' = (ls @ replicate m ''steps'') @ replicate m' ''steps''"
    unfolding l0 by blast
  then have a: "\<exists>m'. given_linestyle kw' = ls @ replicate m' ''steps''"
    by (rule padded_twice)
  have b: "kw_colorMap kw0 = None \<and> kw_colorScheme kw0 = None \<longrightarrow>
            (\<exists>m'. given_colors kw' = cs @ replicate m' (Named ''k''))"
  proof
    assume n: "kw_colorMap kw0 = None \<and> kw_colorScheme kw0 = None"
    with assms(3) ks have c0: "given_colors kw0 = cs @ replicate m2 (Named ''k'')" by simp
    from f n have "\<exists>m'. given_colors kw' = (cs @ replicate m2 (Named ''k'')) @ replicate m' (Named ''k'')"
      unfolding c0 by blast
    then show "\<exists>m'. given_colors kw' = cs @ replicate m' (Named ''k'')"
      by (rule padded_twice)
  qed
  have c: "\<forall>ii < length (p_curves p).
            c_linestyle (p_curves p ! ii) = (if ii < length ls then ls ! ii else ''steps'')"
    using f unfolding l0 padded_nth by blast
  have d: "kw_colorMap kw0 = None \<and> kw_colorScheme kw0 = None \<longrightarrow>
           (\<forall>ii < length (p_curves p).
               c_color (p_curves p ! ii) = (if ii < length cs then cs ! ii else Named ''k''))"
  proof
    assume n: "kw_colorMap kw0 = None \<and> kw_colorScheme kw0 = None"
    with assms(3) ks have c0: "given_colors kw0 = cs @ replicate m2 (Named ''k'')" by simp
    from f n have "\<forall>ii < length (p_curves p). c_color (p_curves p ! ii)
        = (if ii < length (given_colors kw0) then given_colors kw0 ! ii else Named ''k'')"
      by blast
    then show "\<forall>ii < length (p_curves p).
               c_color (p_curves p ! ii) = (if ii < length cs then cs ! ii else Named ''k'')"
      unfolding c0 padded_nth .
  qed
  from f have e: "kw_colorMap kw' = kw_colorMap kw0" "kw_colorScheme kw' = kw_colorScheme kw0"
    "given_legend kw' = given_legend kw0" by blast+
  show ?thesis using a b c d e ks by simp
qed

lemma plot_loop_labels:
  assumes "plot_loop env plts gs (kw, st) = Inr ((kw', st'), ps)"
  shows "lg_n st' = lg_n st + length (concat (map p_curves ps)) \<and>
         (\<forall>k < length (concat (map p_curves ps)).
            lg_n st + k < length (e_legend env) \<and>
            c_label (concat (map p_curves ps) ! k) = e_legend env ! (lg_n st + k))"
  using assms
proof (induction gs arbitrary: plts kw st ps)
  case Nil
  then show ?case by simp
next
  case (Cons g gs)
  from Cons.prems obtain kw1 st1 p ps' where
    g: "plot_group env plts g (kw, st) = Inr ((kw1, st1), p)" and
    r: "plot_loop env (Suc plts) gs (kw1, st1) = Inr ((kw', st'), ps')" and
    ps: "ps = p # ps'"
    by (auto simp: bind_eq_Inr split: prod.splits)
  from plot_group_styles[OF g] have
    n1: "lg_n st1 = lg_n st + length (p_curves p)" and
    c1: "\<forall>ii < length (p_curves p). lg_n st + ii < length (e_legend env) \<and>
            c_label (p_curves p ! ii) = e_legend env ! (lg_n st + ii)"
    by blast+
  note ih = Cons.IH[OF r]
  show ?case
  proof (intro conjI allI impI)
    show "lg_n st' = lg_n st + length (concat (map p_curves ps))"
      using ih n1 by (simp add: ps)
  next
    fix k assume k: "k < length (concat (map p_curves ps))"
    show "lg_n st + k < length (e_legend env)"
    proof (cases "k < length (p_curves p)")
      case True with c1 show ?thesis by simp
    next
      case False
      with k have "k - length (p_curves p) < length (concat (map p_curves ps'))"
        by (simp add: ps)
      with ih n1 False show ?thesis by (auto dest!: spec[of _ "k - length (p_curves p)"])
    qed
  next
    fix k assume k: "k < length (concat (map p_curves ps))"
    show "c_label (concat (map p_curves ps) ! k) = e_legend env ! (lg_n st + k)"
    proof (cases "k < length (p_curves p)")
      case True with c1 show ?thesis by (simp add: ps nth_append)
    next
      case False
      with k have "k - length (p_curves p) < length (concat (map p_curves ps'))"
        by (simp add: ps)
      with ih n1 False show ?thesis
        by (auto simp: ps nth_append dest!: spec[of _ "k - length (p_curves p)"])
    qed
  qed
qed

lemma entry_frame_given [simp]:
  "given_linestyle (fst (prep_legend kw n)) = given_linestyle kw"
  "given_linestyle (extend_features kw) = given_linestyle kw"
  "given_colors (fst (prep_legend kw n)) = given_colors kw"
  "given_colors (extend_features kw) = given_colors kw"
  "given_legend (extend_features kw) = given_legend kw"
  by (simp_all add: given_linestyle_def given_colors_def given_legend_def)

text \<open>
  C5. Reading the entry of a spectrum in the colour list, the line style list or the
  legend list never raises an index error: whatever the arguments and keywords, the call
  does not end in an \<open>IndexError\<close> of one of these three lists. When the call returns,
  spectrum \<open>ii\<close> of every plot group is drawn with entry \<open>ii\<close> of the line style list of the
  caller, and with \<open>'steps'\<close> when the list has no such entry; without a colour scheme it
  is drawn with entry \<open>ii\<close> of the colour list of the caller, and with \<open>'k'\<close> when the list
  has no such entry; and the \<open>k\<close>-th spectrum of the whole call carries entry \<open>k\<close> of the
  legend list of the caller, and the empty label when the list has no such entry. The
  lists of the caller are the lists passed followed by copies of the default.
\<close>

theorem option_lists_never_out_of_range:
  "plotSpectrum args kw \<noteq> Inl (IndexError ''colors'') \<and>
   plotSpectrum args kw \<noteq> Inl (IndexError ''linestyle'') \<and>
   plotSpectrum args kw \<noteq> Inl (IndexError ''legend'') \<and>
   (\<forall>out kw'. plotSpectrum args kw = Inr (out, kw') \<longrightarrow>
      (\<forall>p \<in> set (o_plots out). \<forall>ii < length (p_curves p).
         c_linestyle (p_curves p ! ii)
           = (if ii < length (given_linestyle kw) then given_linestyle kw ! ii else ''steps'') \<and>
         (kw_colorMap kw = None \<and> kw_colorScheme kw = None \<longrightarrow>
            c_color (p_curves p ! ii)
              = (if ii < length (given_colors kw) then given_colors kw ! ii else Named ''k''))) \<and>
      (\<forall>k < length (concat (map p_curves (o_plots out))).
         c_label (concat (map p_curves (o_plots out)) ! k)
           = (if k < length (given_legend kw) then given_legend kw ! k else [])) \<and>
      (\<exists>m. given_linestyle kw' = given_linestyle kw @ replicate m ''steps'') \<and>
      (kw_colorMap kw = None \<and> kw_colorScheme kw = None \<longrightarrow>
         (\<exists>m. given_colors kw' = given_colors kw @ replicate m (Named ''k''))) \<and>
      (\<exists>m. given_legend kw' = given_legend kw @ replicate m []))"
proof -
  have err: "plotSpectrum args kw \<noteq> Inl (IndexError ''colors'') \<and>
   plotSpectrum args kw \<noteq> Inl (IndexError ''linestyle'') \<and>
   plotSpectrum args kw \<noteq> Inl (IndexError ''legend'')"
    using plotSpectrum_error[of args kw] by (auto simp: option_sites_def)
  let ?none = "kw_colorMap kw = None \<and> kw_colorScheme kw = None"
  have ret: "(\<forall>p \<in> set (o_plots out). \<forall>ii < length (p_curves p).
         c_linestyle (p_curves p ! ii)
           = (if ii < length (given_linestyle kw) then given_linestyle kw ! ii else ''steps'') \<and>
         (?none \<longrightarrow>
            c_color (p_curves p ! ii)
              = (if ii < length (given_colors kw) then given_colors kw ! ii else Named ''k''))) \<and>
      (\<forall>k < length (concat (map p_curves (o_plots out))).
         c_label (concat (map p_curves (o_plots out)) ! k)
           = (if k < length (given_legend kw) then given_legend kw ! k else [])) \<and>
      (\<exists>m. given_linestyle kw' = given_linestyle kw @ replicate m ''steps'') \<and>
      (?none \<longrightarrow> (\<exists>m. given_colors kw' = given_colors kw @ replicate m (Named ''k''))) \<and>
      (\<exists>m. given_legend kw' = given_legend kw @ replicate m [])"
    if r: "plotSpectrum args kw = Inr (out, kw')" for out kw'
    using r
  proof (cases rule: plotSpectrum_returns)
    case no_args
    have "given_linestyle kw' = given_linestyle kw @ replicate 0 ''steps''"
      "given_colors kw' = given_colors kw @ replicate 0 (Named ''k'')"
      "given_legend kw' = given_legend kw @ replicate 0 []"
      by (simp_all add: no_args(3))
    then have "\<exists>m. given_linestyle kw' = given_linestyle kw @ replicate m ''steps''"
      "\<exists>m. given_colors kw' = given_colors kw @ replicate m (Named ''k'')"
      "\<exists>m. given_legend kw' = given_legend kw @ replicate m []"
      by blast+
    then show ?thesis by (simp add: no_args(2))
  next
    case (plots splist0 ignored multiplot splist spectra nplot numpages st)
    let ?kw1 = "fst (prep_legend (extend_features kw) (length spectra))"
    let ?env = "make_env kw (snd (prep_legend kw (length spectra))) nplot (length splist)"
    let ?st0 = "\<lparr>pg_n = 0, lg_n = 0, fig = replicate (nat numpages) False\<rparr>"
    let ?I = "\<lambda>(n::nat) (ks :: kwargs \<times> lstate).
        (\<exists>m. given_linestyle (fst ks) = given_linestyle kw @ replicate m ''steps'') \<and>
        kw_colorMap (fst ks) = kw_colorMap kw \<and> kw_colorScheme (fst ks) = kw_colorScheme kw \<and>
        (?none \<longrightarrow> (\<exists>m. given_colors (fst ks) = given_colors kw @ replicate m (Named ''k''))) \<and>
        given_legend (fst ks) = given_legend ?kw1"
    let ?P = "\<lambda>(n::nat) (g::pyobj) (q::plot). \<forall>ii < length (p_curves q).
        c_linestyle (p_curves q ! ii)
           = (if ii < length (given_linestyle kw) then given_linestyle kw ! ii else ''steps'') \<and>
         (?none \<longrightarrow>
            c_color (p_curves q ! ii)
              = (if ii < length (given_colors kw) then given_colors kw ! ii else Named ''k''))"
    have inv: "?I (0 + length splist) (kw', st) \<and> length (o_plots out) = length splist \<and>
          (\<forall>i < length splist. ?P (0 + i) (splist ! i) (o_plots out ! i))"
    proof (rule plot_loop_invariant[OF plots(5), where I = ?I and P = ?P])
      have "given_linestyle ?kw1 = given_linestyle kw @ replicate 0 ''steps''"
        "given_colors ?kw1 = given_colors kw @ replicate 0 (Named ''k'')"
        by simp_all
      then have "\<exists>m. given_linestyle ?kw1 = given_linestyle kw @ replicate m ''steps''"
        "\<exists>m. given_colors ?kw1 = given_colors kw @ replicate m (Named ''k'')"
        by blast+
      then show "?I 0 (?kw1, ?st0)" by simp
    next
      fix j and ks0 ks1 :: "kwargs \<times> lstate" and q
      assume i: "?I (0 + j) ks0" and g: "plot_group ?env (0 + j) (splist ! j) ks0 = Inr (ks1, q)"
      from i obtain m where m: "given_linestyle (fst ks0) = given_linestyle kw @ replicate m ''steps''"
        by blast
      from i have sc: "kw_colorMap (fst ks0) = kw_colorMap kw"
        "kw_colorScheme (fst ks0) = kw_colorScheme kw"
        "given_legend (fst ks0) = given_legend ?kw1" by blast+
      have "\<exists>m2. kw_colorMap (fst ks0) = None \<and> kw_colorScheme (fst ks0) = None \<longrightarrow>
         given_colors (fst ks0) = given_colors kw @ replicate m2 (Named ''k'')"
        using i unfolding sc by blast
      then obtain m2 where m2: "kw_colorMap (fst ks0) = None \<and> kw_colorScheme (fst ks0) = None \<longrightarrow>
         given_colors (fst ks0) = given_colors kw @ replicate m2 (Named ''k'')" ..
      from plot_group_styles_padded[OF g m m2]
      show "?I (0 + Suc j) ks1 \<and> ?P (0 + j) (splist ! j) q"
        unfolding sc by simp
    qed
    have curves: "\<forall>p \<in> set (o_plots out). \<forall>ii < length (p_curves p).
         c_linestyle (p_curves p ! ii)
           = (if ii < length (given_linestyle kw) then given_linestyle kw ! ii else ''steps'') \<and>
         (?none \<longrightarrow>
            c_color (p_curves p ! ii)
              = (if ii < length (given_colors kw) then given_colors kw ! ii else Named ''k''))"
    proof
      fix p assume "p \<in> set (o_plots out)"
      then obtain i where i: "i < length (o_plots out)" "o_plots out ! i = p"
        by (auto simp: in_set_conv_nth)
      note len = inv[THEN conjunct2, THEN conjunct1]
      note every = inv[THEN conjunct2, THEN conjunct2]
      have "i < length splist" using i(1) len by simp
      with spec[OF every, of i] have "?P (0 + i) (splist ! i) (o_plots out ! i)" by (rule mp)
      then show "\<forall>ii < length (p_curves p).
         c_linestyle (p_curves p ! ii)
           = (if ii < length (given_linestyle kw) then given_linestyle kw ! ii else ''steps'') \<and>
         (?none \<longrightarrow>
            c_color (p_curves p ! ii)
              = (if ii < length (given_colors kw) then given_colors kw ! ii else Named ''k''))"
        unfolding i(2) .
    qed
    have leg: "e_legend ?env = extend_to (length spectra) [] (given_legend kw)"
      by (simp add: make_env_def prep_legend_given(1))
    from plot_loop_labels[OF plots(5)] have
      lab: "\<forall>k < length (concat (map p_curves (o_plots out))).
            k < length (e_legend ?env) \<and>
            c_label (concat (map p_curves (o_plots out)) ! k) = e_legend ?env ! k"
      by simp
    have labels: "\<forall>k < length (concat (map p_curves (o_plots out))).
         c_label (concat (map p_curves (o_plots out)) ! k)
           = (if k < length (given_legend kw) then given_legend kw ! k else [])"
      using lab unfolding leg by (simp add: extend_to_index)
    from prep_legend_given(2)[of "extend_features kw" "length spectra"]
    have "\<exists>m. given_legend ?kw1 = given_legend kw @ replicate m []" by simp
    with inv have k3: "\<exists>m. given_legend kw' = given_legend kw @ replicate m []" by simp
    from inv have k1: "\<exists>m. given_linestyle kw' = given_linestyle kw @ replicate m ''steps''"
      and k2: "?none \<longrightarrow> (\<exists>m. given_colors kw' = given_colors kw @ replicate m (Named ''k''))"
      by simp_all
    show ?thesis by (intro conjI curves labels k1 k2 k3)
  qed
  from err ret show ?thesis by blast
qed

subsection \<open>Calls that return\<close>

text \<open>
  With the default wavelength range, flux range and zero points, a call returns
  whenever every plot group is a non-empty list of spectra, the layout has two entries
  and, in multipage mode, both are positive and the file type is \<open>pdf\<close>.
\<close>

lemma index_in_range: "i < length l \<Longrightarrow> index what l i = Inr (l ! i)"
  by (simp add: index_def)

lemma draw_one_total:
  assumes "ii < length (s_zeropoint sty)" and "ii < length (s_colors sty)"
    and "ii < length (s_linestyle sty)" and "ii < length (s_colorsUnc sty)"
    and "ii < length (s_showNoise sty)" and "ii < length (s_showZero sty)"
    and "d_lg_n d < length (e_legend env)" and "4 \<le> length (d_bound d)"
  shows "\<exists>d'. draw_one env ny sty n ii a d = Inr d'"
  using assms
  by (auto simp: draw_one_def Let_def index_def shifted_def)

lemma draw_spectra_total:
  assumes "ii + length rest \<le> length (s_zeropoint sty)"
    and "ii + length rest \<le> length (s_colors sty)"
    and "ii + length rest \<le> length (s_linestyle sty)"
    and "ii + length rest \<le> length (s_colorsUnc sty)"
    and "ii + length rest \<le> length (s_showNoise sty)"
    and "ii + length rest \<le> length (s_showZero sty)"
    and "d_lg_n d + length rest \<le> length (e_legend env)" and "4 \<le> length (d_bound d)"
  shows "\<exists>d'. draw_spectra env ny sty n ii rest d = Inr d'"
  using assms
proof (induction rest arbitrary: ii d)
  case Nil
  then show ?case by simp
next
  case (Cons a rest)
  have "\<exists>d1. draw_one env ny sty n ii a d = Inr d1"
    using Cons.prems by (intro draw_one_total) auto
  then obtain d1 where d1: "draw_one env ny sty n ii a d = Inr d1" ..
  from d1 have "d_lg_n d1 = d_lg_n d + 1" "length (d_bound d1) = length (d_bound d)"
    by (rule draw_one_returns, simp)+
  with Cons.prems have "\<exists>d'. draw_spectra env ny sty n (Suc ii) rest d1 = Inr d'"
    by (intro Cons.IH) auto
  with d1 show ?case by simp
qed

lemma resolve_styles_total: "0 < n \<Longrightarrow> \<exists>kw' sty. resolve_styles kw n = Inr (kw', sty)"
  by (auto simp: resolve_styles_def resolve_colors_def Let_def split_beta bind_eq_Inr
           split: option.splits)

lemma label_interval_length:
  "length (fst acc) = length wvmax \<Longrightarrow>
   length (fst (label_interval ns bound yoff wvmax ftr ft ii w acc)) = length wvmax"
  by (simp add: label_interval_def Let_def)

lemma label_intervals_length:
  "length (fst acc) = length wvmax \<Longrightarrow>
   length (fst (label_intervals ns bound yoff wvmax ftr ft ii ws acc)) = length wvmax"
  by (induction ws arbitrary: ii acc) (simp_all add: label_interval_length)

lemma label_features_length:
  "length (fst acc) = length wvmax \<Longrightarrow>
   length (fst (label_features ns bound yoff wvmax fs acc)) = length wvmax"
  by (induction fs arbitrary: acc) (simp_all add: label_intervals_length split: option.splits)

lemma arange_default: "arange 0.85 2.42 0.001 \<noteq> []"
  by (simp add: arange_def)

lemma numpy_max_total: "l \<noteq> [] \<Longrightarrow> numpy_max l = Inr (list_max l)"
  by (simp add: numpy_max_def)

lemma plot_group_total:
  assumes g: "group_spectra g = Inr sp"
    and plain: "kw_xrange kw = None" "kw_yrange kw = None" "kw_zeropoint kw = None"
    and pl: "place env st plts = Inr (st1, dest)"
    and leg: "lg_n st + length sp \<le> length (e_legend env)"
    and ml: "2 \<le> length (e_multilayout env)"
  shows "\<exists>kw' st' p. plot_group env plts g (kw, st) = Inr ((kw', st'), p)"
proof -
  let ?n = "length sp"
  from group_spectra_returns(2)[OF g] have n: "0 < ?n" by simp
  have "\<exists>bound. resolve_bound kw sp (kwget (replicate ?n 0) (kw_zeropoint kw)) = Inr bound \<and>
          length bound = 4 \<and> bound ! 0 = 0.85 \<and> bound ! 1 = 2.42"
    using n plain by (simp add: resolve_bound_def numpy_max_total)
  then obtain bound where
    b: "resolve_bound kw sp (kwget (replicate ?n 0) (kw_zeropoint kw)) = Inr bound" and
    bl: "length bound = 4" "bound ! 0 = 0.85" "bound ! 1 = 2.42" by blast
  from resolve_styles_total[OF n] obtain kw1 sty where
    sty: "resolve_styles kw ?n = Inr (kw1, sty)" by blast
  from sty have s: "kw_yrange kw1 = None" "s_zeropoint sty = replicate ?n 0"
    "?n \<le> length (s_linestyle sty)" "?n \<le> length (s_colors sty)"
    "?n \<le> length (s_colorsUnc sty)" "?n \<le> length (s_showNoise sty)"
    "?n \<le> length (s_showZero sty)"
    by (rule resolve_styles_returns, simp add: plain)+
  let ?d0 = "\<lparr> d_bound = bound, d_wvmax = [], d_flxmax = [], d_lg_n = lg_n st1,
               d_curves = [] \<rparr>"
  have "\<exists>d. draw_spectra env (kw_yrange kw1 = None) sty ?n 0 sp ?d0 = Inr d"
    using s leg place_lg_n[OF pl] bl(1) by (intro draw_spectra_total) auto
  then obtain d where d: "draw_spectra env (kw_yrange kw1 = None) sty ?n 0 sp ?d0 = Inr d" ..
  from draw_spectra_returns(3,4)[OF d] bl have db: "length (d_bound d) = 4"
    "d_bound d ! 0 = 0.85" "d_bound d ! 1 = 2.42" by simp_all
  have grid: "length (d_flxmax d) = length (d_wvmax d)"
    "d_wvmax d = arange 0.85 2.42 0.001"
    using draw_spectra_grid[OF d] n unfolding bl(2,3)[symmetric] by simp_all
  have "\<exists>c. draw_comparison env kw1 sty = Inr c"
    using s n by (auto simp: draw_comparison_def index_def)
  then obtain c where c: "draw_comparison env kw1 sty = Inr c" ..
  have i: "index ''bound'' (d_bound d) 3 = Inr (d_bound d ! 3)"
    "index ''bound'' (d_bound d) 2 = Inr (d_bound d ! 2)"
    "index ''multilayout'' (e_multilayout env) 0 = Inr (e_multilayout env ! 0)"
    "index ''multilayout'' (e_multilayout env) 1 = Inr (e_multilayout env ! 1)"
    using db(1) ml by (auto simp: index_def)
  have "fst (label_features (e_nsamples env) (d_bound d)
               (0.02 * (d_bound d ! 3 - d_bound d ! 2)) (d_wvmax d) (e_features env)
               (d_flxmax d, [])) \<noteq> []"
    using label_features_length[of "(d_flxmax d, [])" "d_wvmax d"] grid arange_default
    by (metis fst_conv length_0_conv)
  from numpy_max_total[OF this] show ?thesis
    unfolding plot_group_def
    by (simp only: g b sty pl d c i Let_def bind_Inr fst_conv snd_conv prod.case) blast
qed


lemma plot_loop_total:
  assumes "\<forall>g \<in> set gs. \<exists>sp. group_spectra g = Inr sp"
    and "kw_xrange kw = None" and "kw_yrange kw = None" and "kw_zeropoint kw = None"
    and "flatten gs = Inr spectra"
    and "lg_n st + length spectra \<le> length (e_legend env)"
    and "2 \<le> length (e_multilayout env)"
    and "J plts st"
    and step: "\<And>i st. plts \<le> i \<Longrightarrow> i < plts + length gs \<Longrightarrow> J i st \<Longrightarrow>
           \<exists>st1 dest. place env st i = Inr (st1, dest) \<and> (\<forall>l. J (Suc i) (st1\<lparr>lg_n := l\<rparr>))"
  shows "\<exists>kw' st' ps. plot_loop env plts gs (kw, st) = Inr ((kw', st'), ps) \<and>
           J (plts + length gs) st'"
  using assms
proof (induction gs arbitrary: plts kw st spectra)
  case Nil
  then show ?case by simp
next
  case (Cons g gs)
  from Cons.prems(1) obtain sp where sp: "group_spectra g = Inr sp" by auto
  from Cons.prems(5) obtain l where l: "flatten gs = Inr l" "spectra = items g @ l"
    by (rule flatten_Cons)
  from group_spectra_returns(1)[OF sp] have len: "length (items g) = length sp" by simp
  from Cons.prems(9)[of plts st] Cons.prems(8) obtain st1 dest where
    pl: "place env st plts = Inr (st1, dest)" and J1: "\<forall>l. J (Suc plts) (st1\<lparr>lg_n := l\<rparr>)"
    by auto
  have "\<exists>kw1 st2 p. plot_group env plts g (kw, st) = Inr ((kw1, st2), p)"
    using Cons.prems(6) l(2) len
    by (intro plot_group_total[OF sp Cons.prems(2,3,4) pl _ Cons.prems(7)]) simp
  then obtain kw1 st2 p where pg: "plot_group env plts g (kw, st) = Inr ((kw1, st2), p)"
    by blast
  note b = plot_group_bound[OF pg]
  have plain1: "kw_xrange kw1 = None" "kw_yrange kw1 = None" "kw_zeropoint kw1 = None"
    using b(1,3,4) Cons.prems(2,3,4) by simp_all
  from plot_group_spectra[OF pg] sp have "p_spectra p = sp" by simp
  with plot_group_lg_n[OF pg] Cons.prems(6) l(2) len
  have leg1: "lg_n st2 + length l \<le> length (e_legend env)" by simp
  from pg have "\<exists>l. st2 = st1\<lparr>lg_n := l\<rparr>"
    by (rule plot_group_returns) (use pl in auto)
  with J1 have J2: "J (Suc plts) st2" by auto
  have "\<exists>kw' st' ps. plot_loop env (Suc plts) gs (kw1, st2) = Inr ((kw', st'), ps) \<and>
           J (Suc plts + length gs) st'"
  proof (rule Cons.IH[OF _ plain1 l(1) leg1 Cons.prems(7) J2])
    show "\<forall>g \<in> set gs. \<exists>sp. group_spectra g = Inr sp" using Cons.prems(1) by simp
  next
    fix i st
    assume "Suc plts \<le> i" "i < Suc plts + length gs" "J i st"
    then show "\<exists>st1 dest. place env st i = Inr (st1, dest) \<and> (\<forall>l. J (Suc i) (st1\<lparr>lg_n := l\<rparr>))"
      by (intro Cons.prems(9)) auto
  qed
  with pg show ?case by auto
qed

lemma place_screen_total:
  assumes "\<not> e_multipage env" and "e_filebase env = [] \<or> plts < length (e_files env)"
  shows "\<exists>dest. place env st plts = Inr (st, dest)"
  using assms by (auto simp: place_def index_def)

lemma place_multipage_total:
  assumes "e_multipage env" and "e_nplot env = int n" and "0 < n"
    and "pg_n st = (if i = 0 then 0 else (i - 1) div n + 1)"
    and "\<forall>j < pg_n st. fig st ! j" and "i div n < length (fig st)"
  shows "\<exists>st' dest. place env st i = Inr (st', dest) \<and> (\<forall>j < pg_n st'. fig st' ! j)"
proof (cases "i mod n = 0")
  case True
  have pg: "pg_n st = i div n"
    using assms(4) nat_div_pred_dvd[OF _ assms(3) True] by (cases "i = 0") auto
  have m: "int i mod int n = 0" using True by (simp flip: of_nat_mod)
  show ?thesis
    using assms(1,2,3,5,6) pg m
    by (auto simp: place_def Let_def py_get_def nth_list_update less_Suc_eq)
next
  case False
  then have i: "i \<noteq> 0" by (cases "i = 0") auto
  have pg: "pg_n st = i div n + 1"
    using assms(4) nat_div_pred_ndvd[OF assms(3) False] i by simp
  have m: "int i mod int n \<noteq> 0" using False by (simp flip: of_nat_mod)
  show ?thesis
    using assms(1,2,3,5,6) pg m
    by (auto simp: place_def Let_def py_get_def)
qed

lemma save_pages_total: "\<forall>j < length figures. figures ! j \<Longrightarrow> save_pages True figures = Inr (length figures)"
proof (induction figures)
  case Nil
  then show ?case by simp
next
  case (Cons f figures)
  from Cons.prems have "f" "\<forall>j < length figures. figures ! j" by auto
  with Cons.IH show ?case by simp
qed


lemma flatten_total: "\<forall>g \<in> set gs. is_list g \<Longrightarrow> \<exists>l. flatten gs = Inr l"
  by (induction gs) auto

lemma pages_count:
  assumes "0 < n"
  shows "(if int G mod int n = 0 then int G div int n else int G div int n + 1)
         = int (if G = 0 then 0 else (G - 1) div n + 1)"
proof (cases "G mod n = 0")
  case True
  then have "int G mod int n = 0" by (simp flip: of_nat_mod)
  moreover have "G \<noteq> 0 \<Longrightarrow> (G - 1) div n + 1 = G div n"
    using nat_div_pred_dvd[OF _ assms True] by simp
  ultimately show ?thesis by (auto simp: of_nat_div)
next
  case False
  then have "int G mod int n \<noteq> 0" by (simp flip: of_nat_mod)
  moreover have "G \<noteq> 0" using False by (cases "G = 0") auto
  moreover have "(G - 1) div n = G div n" by (rule nat_div_pred_ndvd[OF assms False])
  ultimately show ?thesis by (simp add: of_nat_div)
qed

lemma setup_pages_total:
  assumes "2 \<le> length ml" and "0 < ml ! 0 * ml ! 1"
  shows "setup_pages ml G
         = Inr (ml ! 0 * ml ! 1, int (if G = 0 then 0 else (G - 1) div nat (ml ! 0 * ml ! 1) + 1))"
proof -
  define n where "n = nat (ml ! 0 * ml ! 1)"
  have n0: "0 < n" and e: "ml ! 0 * ml ! 1 = int n" using assms(2) by (simp_all add: n_def)
  have idx: "index ''multilayout'' ml 0 = Inr (ml ! 0)" "index ''multilayout'' ml 1 = Inr (ml ! 1)"
    using assms(1) by (auto simp: index_def)
  have pc: "(if int G mod int n = 0 then int G div int n + 1 - 1 else int G div int n + 1)
            = int (if G = 0 then 0 else (G - 1) div n + 1)"
    unfolding add_diff_cancel_right' by (rule pages_count[OF n0])
  have ne: "int n \<noteq> 0" using n0 by simp
  show ?thesis
    unfolding setup_pages_def
    by (simp only: idx bind_Inr Let_def e pc nat_int ne if_False)
qed

lemma plotSpectrum_total:
  assumes "read_args args = Some (splist0, ignored)"
    and "setup_multiplot (kwget False (kw_multiplot kw)) splist0 = Inr (m, splist)"
    and groups: "\<forall>g \<in> set splist. \<exists>sp. group_spectra g = Inr sp"
    and plain: "kw_xrange kw = None" "kw_yrange kw = None" "kw_zeropoint kw = None"
    and ns: "kwget 1000 (kw_nsamples kw) \<noteq> 0"
    and ml: "2 \<le> length (get_multilayout kw)"
    and mp: "kwget False (kw_multipage kw) \<longrightarrow>
             0 < get_multilayout kw ! 0 \<and> 0 < get_multilayout kw ! 1 \<and> get_filetype kw = ''pdf''"
  shows "\<exists>out kw'. plotSpectrum args kw = Inr (out, kw')"
proof -
  let ?G = "length splist"
  have "\<forall>g \<in> set splist. is_list g"
  proof
    fix g assume "g \<in> set splist"
    with groups obtain sp where "group_spectra g = Inr sp" by auto
    from group_spectra_returns(1)[OF this] show "is_list g" by simp
  qed
  from flatten_total[OF this] obtain spectra where fl: "flatten splist = Inr spectra" ..
  let ?kw1 = "fst (prep_legend (extend_features kw) (length spectra))"
  have plain1: "kw_xrange ?kw1 = None" "kw_yrange ?kw1 = None" "kw_zeropoint ?kw1 = None"
    using plain by simp_all
  show ?thesis
  proof (cases "kwget False (kw_multipage kw)")
    case False
    let ?env = "make_env kw (snd (prep_legend kw (length spectra))) 0 ?G"
    let ?st = "\<lparr> pg_n = 0, lg_n = 0, fig = replicate (nat 0) False \<rparr>"
    have "\<exists>kw' st' ps. plot_loop ?env 0 splist (?kw1, ?st) = Inr ((kw', st'), ps) \<and> True"
    proof (rule plot_loop_total[OF groups plain1 fl, where J = "\<lambda>_ _. True"])
      show "lg_n ?st + length spectra \<le> length (e_legend ?env)"
        by (simp add: make_env_def prep_legend_length)
      show "2 \<le> length (e_multilayout ?env)" using ml by (simp add: make_env_def)
    next
      fix i st
      assume "i < 0 + ?G"
      then have "\<exists>dest. place ?env st i = Inr (st, dest)"
        using False by (intro place_screen_total) (simp_all add: make_env_def make_files_def)
      then show "\<exists>st1 dest. place ?env st i = Inr (st1, dest) \<and> (\<forall>l. True)" by auto
    qed simp
    then obtain kw' st' ps where
      "plot_loop ?env 0 splist (?kw1, ?st) = Inr ((kw', st'), ps)" by blast
    then show ?thesis
      using assms(1,2) ns fl False
      by (simp add: plotSpectrum_def page_setup_def save_document_def)
  next
    case True
    let ?R = "get_multilayout kw ! 0" and ?C = "get_multilayout kw ! 1"
    let ?n = "nat (?R * ?C)"
    let ?P = "if ?G = 0 then 0 else (?G - 1) div ?n + 1"
    from mp True have pos: "0 < ?R * ?C" and pdf: "get_filetype kw = ''pdf''" by simp_all
    then have n: "0 < ?n" "int ?n = ?R * ?C" by simp_all
    have ps: "page_setup kw ?G = Inr (?R * ?C, int ?P)"
      using True setup_pages_total[OF ml pos, of ?G] by (simp only: page_setup_def if_True)
    let ?env = "make_env kw (snd (prep_legend kw (length spectra))) (?R * ?C) ?G"
    let ?st = "\<lparr> pg_n = 0, lg_n = 0, fig = replicate (nat (int ?P)) False \<rparr>"
    let ?J = "\<lambda>i st. pg_n st = (if i = 0 then 0 else (i - 1) div ?n + 1) \<and>
                     (\<forall>j < pg_n st. fig st ! j) \<and> length (fig st) = ?P"
    have env: "e_multipage ?env" "e_nplot ?env = int ?n"
      using True n(2) by (simp_all add: make_env_def)
    have "\<exists>kw' st' ps. plot_loop ?env 0 splist (?kw1, ?st) = Inr ((kw', st'), ps) \<and>
            ?J (0 + ?G) st'"
    proof (rule plot_loop_total[OF groups plain1 fl, where J = ?J])
      show "lg_n ?st + length spectra \<le> length (e_legend ?env)"
        by (simp add: make_env_def prep_legend_length)
      show "2 \<le> length (e_multilayout ?env)" using ml by (simp add: make_env_def)
      show "?J 0 ?st" by simp
    next
      fix i and st :: lstate
      assume i: "i < 0 + ?G" and J: "?J i st"
      from i have "i div ?n \<le> (?G - 1) div ?n" by (intro div_le_mono) simp
      moreover from i have "splist \<noteq> []" by auto
      ultimately have lt: "i div ?n < length (fig st)" using J by simp
      from J have j1: "pg_n st = (if i = 0 then 0 else (i - 1) div ?n + 1)"
        and j2: "\<forall>j < pg_n st. fig st ! j" by simp_all
      from place_multipage_total[OF env n(1) j1 j2 lt] obtain st1 dest where
        pl: "place ?env st i = Inr (st1, dest)" and tr: "\<forall>j < pg_n st1. fig st1 ! j" by blast
      from place_multipage_returns[OF env n(1) pl j1] J have
        "pg_n st1 = i div ?n + 1" "length (fig st1) = length (fig st)" by simp_all
      with tr J pl show "\<exists>st1 dest. place ?env st i = Inr (st1, dest) \<and>
                           (\<forall>l. ?J (Suc i) (st1\<lparr>lg_n := l\<rparr>))" by simp
    qed
    then obtain kw' st' plots where
      loop: "plot_loop ?env 0 splist (?kw1, ?st) = Inr ((kw', st'), plots)" and
      J: "?J ?G st'" by auto
    from J have "\<forall>j < length (fig st'). fig st' ! j" by simp
    from save_pages_total[OF this] have "save_document kw (fig st') = Inr (length (fig st'))"
      using True pdf by (simp add: save_document_def)
    with loop show ?thesis
      using assms(1,2) ns fl ps
      by (simp add: plotSpectrum_def)
  qed
qed

subsection \<open>One spectrum and no keyword\<close>

lemma arange_nonempty: "start < stop \<Longrightarrow> 0 < step \<Longrightarrow> arange start stop step \<noteq> []"
  by (auto simp: arange_def divide_le_0_iff)

lemma list_max_Max: "l \<noteq> [] \<Longrightarrow> list_max l = Max (set l)"
proof (cases l)
  case Nil
  assume "l \<noteq> []"
  with Nil show ?thesis by simp
next
  case (Cons a list)
  show ?thesis unfolding Cons list_max.simps by (rule Max.set_eq_fold[symmetric])
qed

lemma interp_s0: "interp1d [1, 1.3] [1, 1] x = (if 1 \<le> x \<and> x \<le> 1.3 then 1 else 0)"
  by (auto simp: interp1d_def)

lemma envelope_s0: "list_max (map (interp1d [1, 1.3] [1, 1]) (arange 0.85 2.42 0.001)) = 1"
proof -
  let ?l = "map (interp1d [1, 1.3] [1, 1]) (arange 0.85 2.42 0.001)"
  have ne: "?l \<noteq> []" by (simp add: arange_nonempty)
  have m: "Max (set ?l) = 1"
  proof (rule Max_eqI)
    show "finite (set ?l)" by simp
    show "\<And>y. y \<in> set ?l \<Longrightarrow> y \<le> 1" by (auto simp: interp_s0)
    have "(0.85::real) + real (150::nat) * 0.001 \<in> set (arange 0.85 2.42 0.001)"
      unfolding arange_def set_map by (rule imageI) simp
    then have "interp1d [1, 1.3] [1, 1] (0.85 + real (150::nat) * 0.001) \<in> set ?l"
      unfolding set_map by (rule imageI)
    then show "1 \<in> set ?l" by (simp add: interp_s0)
  qed
  show ?thesis by (rule trans[OF list_max_Max[OF ne] m])
qed

lemma single_default_call:
  "\<exists>p. plotSpectrum [Spectrum s] no_kwargs
         = Inr (\<lparr> o_plots = [p], o_pages = 0, o_ignored = [] \<rparr>, no_kwargs) \<and>
       p_dest p = ToScreen \<and>
       p_bound p = [0.85, 2.42, - 0.02 * fluxMax s,
                    list_max (map (interp1d (wave s) (flux s)) (arange 0.85 2.42 0.001))
                      + 0.0488 * fluxMax s]"
  by (simp add: plotSpectrum_def no_kwargs_def read_args_def setup_multiplot_def
        make_env_def prep_legend_def get_legend_def put_legend_def extend_to_def
        request_list_def preset_features_def extend_features_def get_multilayout_def
        get_filebase_def get_filetype_def get_filename_def make_files_def plot_group_def
        group_spectra_def resolve_bound_def numpy_max_def resolve_styles_def
        resolve_linestyle_def resolve_colors_def put_colors_def resolve_colorsUnc_def
        resolve_showNoise_def get_showNoise_def put_showNoise_def resolve_showZero_def
        place_def index_def draw_one_def shifted_def draw_comparison_def alias_bound_def
        page_setup_def save_document_def arange_nonempty Let_def
      cong: bind_weak_cong let_weak_cong)

text \<open>
  C1. For one spectrum and no keyword the call shows exactly one plot on the screen, with
  the wavelength bounds \<open>[0.85, 2.42]\<close> and the lower flux bound \<open>-0.02 * fluxMax\<close>. The
  upper flux bound is not \<open>1.2 * fluxMax\<close>: line 410 replaces it by the top of the
  plotted curve plus twice the label offset. For the spectrum \<open>s0\<close> with wavelength range
  \<open>[1.0, 1.3]\<close> it is \<open>1.0488 * fluxMax\<close>.
\<close>

theorem default_upper_flux_bound_overwritten:
  "\<exists>p. plotSpectrum [Spectrum s0] no_kwargs
         = Inr (\<lparr> o_plots = [p], o_pages = 0, o_ignored = [] \<rparr>, no_kwargs) \<and>
       p_dest p = ToScreen \<and>
       p_bound p = [0.85, 2.42, - 0.02 * fluxMax s0, 1.0488 * fluxMax s0]"
  using single_default_call[of s0] envelope_s0 by (simp add: s0_def)

subsection \<open>A call with features and a wavelength range\<close>

lemma vo_call:
  "\<exists>out kw' p. plotSpectrum [Spectrum s0] kw_vo = Inr (out, kw') \<and> o_plots out = [p] \<and>
     map a_code (p_annotations p) = [''vo'', ''vo''] \<and>
     Some (take 2 (p_bound p)) = kw_xrange kw_vo \<and> length (p_bound p) = 4 \<and>
     kw_xrange kw' = Some (p_bound p) \<and> kw_features kw' = Some [''VO'', ''vo'']"
  by (simp add: eval_defs s0_def kw_vo_def cong: bind_weak_cong let_weak_cong)

text \<open>
  C2. The loop that removes repeated codes compares the codes as they were written,
  while the labelling loop looks every code up in lower case. A code requested in two
  spellings is therefore labelled twice: with \<open>features=['VO']\<close> and \<open>young=True\<close> the
  request list is \<open>['VO', 'vo']\<close>, and the band \<open>vo\<close> is labelled two times on the plot.
\<close>

theorem repeated_code_labelled_twice:
  "(case plotSpectrum [Spectrum s0] kw_vo of
      Inl e \<Rightarrow> []
    | Inr (out, kw') \<Rightarrow> map (\<lambda>p. map a_code (p_annotations p)) (o_plots out))
   = [[''vo'', ''vo'']]"
  using vo_call by auto

subsection \<open>Calls on example inputs\<close>

lemma plotSpectrum_list_groups:
  assumes "plotSpectrum [PyList l] kw = Inr (out, kw')"
    and "setup_multiplot (kwget False (kw_multiplot kw)) l
         = Inr (m, map (\<lambda>g. PyList (map Spectrum g)) gs)"
  shows "map p_spectra (o_plots out) = gs"
proof -
  from plotSpectrum_groups[OF assms(1) read_args_list] assms(2)
  have "map (\<lambda>sp. PyList (map Spectrum sp)) (map p_spectra (o_plots out))
      = map (\<lambda>sp. PyList (map Spectrum sp)) gs"
    by (auto simp: comp_def)
  then show ?thesis by (rule PyList_Spectrum_eq)
qed

lemma plotSpectrum_list_total:
  assumes "setup_multiplot (kwget False (kw_multiplot kw)) l
           = Inr (m, map (\<lambda>g. PyList (map Spectrum g)) gs)"
    and "\<forall>g \<in> set gs. g \<noteq> []"
    and "kw_xrange kw = None" "kw_yrange kw = None" "kw_zeropoint kw = None"
    and "kwget 1000 (kw_nsamples kw) \<noteq> 0"
    and "2 \<le> length (get_multilayout kw)"
    and "kwget False (kw_multipage kw) \<longrightarrow>
             0 < get_multilayout kw ! 0 \<and> 0 < get_multilayout kw ! 1 \<and> get_filetype kw = ''pdf''"
  shows "\<exists>out kw'. plotSpectrum [PyList l] kw = Inr (out, kw') \<and>
           map p_spectra (o_plots out) = gs"
proof -
  have "\<forall>g \<in> set (map (\<lambda>g. PyList (map Spectrum g)) gs). \<exists>sp. group_spectra g = Inr sp"
    using assms(2) by (auto simp: group_spectra_list)
  from plotSpectrum_total[OF read_args_list assms(1) this assms(3-8)]
  obtain out kw' where r: "plotSpectrum [PyList l] kw = Inr (out, kw')" by blast
  with plotSpectrum_list_groups[OF r assms(1)] show ?thesis by blast
qed


lemma bands_call:
  "\<exists>out kw' p. plotSpectrum [Spectrum s0] kw_bands = Inr (out, kw') \<and> o_plots out = [p] \<and>
     map (\<lambda>a. (a_code a, a_index a)) (p_annotations p) = [(''vo'', 0)] \<and>
     Some (take 2 (p_bound p)) = kw_xrange kw_bands \<and> length (p_bound p) = 4"
  by (simp add: eval_defs s0_def kw_bands_def cong: bind_weak_cong let_weak_cong)

theorem feature_outside_bounds_not_annotated_witness:
  "\<exists>out kw' p. plotSpectrum [Spectrum s0] kw_bands = Inr (out, kw') \<and> p \<in> set (o_plots out) \<and>
     kw_features kw_bands = Some [''vo'', ''h2o''] \<and> take 2 (p_bound p) = [1.03, 1.09] \<and>
     map (\<lambda>a. (a_code a, a_index a)) (p_annotations p) = [(''vo'', 0)] \<and>
     map f_wavelengths (case_option [] (\<lambda>ft. [ft]) (feature_labels ''h2o''))
       = [[(0.92, 0.95), (1.08, 1.20), (1.325, 1.550), (1.72, 2.14)]] \<and>
     \<not> (\<exists>a \<in> set (p_annotations p). a_code a = ''h2o'' \<and> a_index a = 1)"
proof -
  from bands_call obtain out kw' p where
    r: "plotSpectrum [Spectrum s0] kw_bands = Inr (out, kw')" and p: "o_plots out = [p]" and
    a: "map (\<lambda>a. (a_code a, a_index a)) (p_annotations p) = [(''vo'', 0)]" and
    b: "Some (take 2 (p_bound p)) = kw_xrange kw_bands" "length (p_bound p) = 4"
    by (elim exE conjE)
  have mem: "p \<in> set (o_plots out)" using p by simp
  have k: "kw_features kw_bands = Some [''vo'', ''h2o'']"
    by (simp add: kw_bands_def no_kwargs_def)
  from b(1) have tk: "take 2 (p_bound p) = [1.03, 1.09]"
    by (simp add: kw_bands_def no_kwargs_def)
  then have "take 2 (p_bound p) ! Suc 0 = 1.09" by simp
  then have b1: "p_bound p ! Suc 0 = 1.09" by simp
  define ft where "ft = \<lparr>f_label = ''H$_2$O'', f_type = Band,
        f_wavelengths = [(0.92, 0.95), (1.08, 1.20), (1.325, 1.550), (1.72, 2.14)]\<rparr>"
  have ft: "feature_labels ''h2o'' = Some ft"
    by (simp add: feature_labels_def feature_table_def ft_def)
  have w: "map f_wavelengths (case_option [] (\<lambda>ft. [ft]) (feature_labels ''h2o''))
       = [[(0.92, 0.95), (1.08, 1.20), (1.325, 1.550), (1.72, 2.14)]]"
    unfolding ft by (simp add: ft_def)
  have len: "1 < length (f_wavelengths ft)" by (simp add: ft_def)
  have out: "\<not> (min (fst (f_wavelengths ft ! 1)) (snd (f_wavelengths ft ! 1)) > p_bound p ! 0 \<and>
            max (fst (f_wavelengths ft ! 1)) (snd (f_wavelengths ft ! 1)) < p_bound p ! 1)"
    by (simp add: ft_def b1)
  note n = feature_outside_bounds_not_annotated[OF r mem ft len out]
  show ?thesis
    by (rule exI[of _ out], rule exI[of _ kw'], rule exI[of _ p]) (intro conjI r mem k tk a w n)
qed

lemma grow_call:
  "\<exists>out kw' p q. plotSpectrum [PyList [PyList [Spectrum s0], PyList [Spectrum s0]]] kw_grow
       = Inr (out, kw') \<and> o_plots out = [p, q] \<and>
     map a_code (p_annotations p) = [''h''] \<and> map a_code (p_annotations q) = [''h'']"
  by (simp add: eval_defs s0_def kw_grow_def cong: bind_weak_cong let_weak_cong)

theorem caller_lists_grow_witness:
  "\<exists>out kw' xs' p q.
     plotSpectrum [PyList [PyList [Spectrum s0], PyList [Spectrum s0]]] kw_grow = Inr (out, kw') \<and>
     o_plots out = [p, q] \<and>
     kw_features kw_grow = Some [''h''] \<and>
     kw_features kw' = Some [''h'', ''k'', ''na'', ''feh'', ''tio'', ''co'', ''h2o'', ''h2'',
                             ''k'', ''ch4'', ''h2o'', ''h2'', ''vo'', ''sb''] \<and>
     kw_xrange kw_grow = Some [1.003, 1.006] \<and> kw_xrange kw' = Some xs' \<and>
     length (p_bound p) = 4 \<and> length (p_bound q) = 6 \<and> length xs' = 6 \<and> p_bound q = xs' \<and>
     take 2 xs' = [1.003, 1.006]"
proof -
  from grow_call obtain out kw' p q where
    r: "plotSpectrum [PyList [PyList [Spectrum s0], PyList [Spectrum s0]]] kw_grow
          = Inr (out, kw')" and pq: "o_plots out = [p, q]"
    by (elim exE conjE)
  have k: "kw_features kw_grow = Some [''h'']" "kw_xrange kw_grow = Some [1.003, 1.006]"
    "kw_yrange kw_grow = None" "kw_ldwarf kw_grow = None" "kw_mdwarf kw_grow = Some True"
    "kw_tdwarf kw_grow = Some True" "kw_young kw_grow = Some True"
    "kw_binary kw_grow = Some True"
    by (simp_all add: kw_grow_def no_kwargs_def)
  note t = caller_lists_grow[OF r, unfolded k pq]
  from t have f: "kw_features kw' = Some [''h'', ''k'', ''na'', ''feh'', ''tio'', ''co'', ''h2o'',
      ''h2'', ''k'', ''ch4'', ''h2o'', ''h2'', ''vo'', ''sb'']" by simp
  from t obtain xs' where x: "kw_xrange kw' = Some xs'" "length xs' = 6" "p_bound q = xs'"
    "\<forall>j < 2. j \<noteq> 3 \<longrightarrow> xs' ! j = [1.003, 1.006 :: real] ! j"
    "\<forall>i < 2. length (p_bound ([p, q] ! i)) = 2 + (i + 1) * 2"
    by auto
  from x(5)[rule_format, of 0] x(5)[rule_format, of 1]
  have lp: "length (p_bound p) = 4" "length (p_bound q) = 6"
    by simp_all
  have "take 2 xs' = [xs' ! 0, xs' ! 1]" using x(2)
    by (simp add: list_eq_iff_nth_eq less_Suc_eq numeral_2_eq_2)
  also from x(4) have "\<dots> = [1.003, 1.006]" by (simp add: less_Suc_eq numeral_2_eq_2)
  finally have tk: "take 2 xs' = [1.003, 1.006]" .
  show ?thesis
    by (rule exI[of _ out], rule exI[of _ kw'], rule exI[of _ xs'], rule exI[of _ p],
        rule exI[of _ q]) (intro conjI r pq k(1,2) f x(1,2,3) lp tk)
qed

theorem option_lists_never_out_of_range_witness:
  "\<exists>out kw' p q.
     plotSpectrum [PyList (map (\<lambda>g. PyList (map Spectrum g)) [[s0, s0], [s0]])] kw_short
       = Inr (out, kw') \<and>
     o_plots out = [p, q] \<and>
     map c_linestyle (p_curves p) = [''--'', ''steps''] \<and>
     map c_linestyle (p_curves q) = [''--''] \<and>
     map c_color (p_curves p) = [Named ''r'', Named ''k''] \<and>
     map c_color (p_curves q) = [Named ''r''] \<and>
     map c_label (p_curves p @ p_curves q) = [''a'', [], []]"
proof -
  let ?gs = "[[s0, s0], [s0]]"
  have "\<exists>out kw'. plotSpectrum [PyList (map (\<lambda>g. PyList (map Spectrum g)) ?gs)] kw_short
          = Inr (out, kw') \<and> map p_spectra (o_plots out) = ?gs"
    by (rule plotSpectrum_list_total[where m = True])
       (simp_all add: kw_short_def no_kwargs_def setup_multiplot_def get_multilayout_def)
  then obtain out kw' where
    r: "plotSpectrum [PyList (map (\<lambda>g. PyList (map Spectrum g)) ?gs)] kw_short = Inr (out, kw')"
    and m: "map p_spectra (o_plots out) = ?gs" by (elim exE conjE)
  from m obtain p q where pq: "o_plots out = [p, q]" "p_spectra p = [s0, s0]" "p_spectra q = [s0]"
    by (auto simp: map_eq_Cons_conv)
  then have len: "length (p_curves p) = 2" "length (p_curves q) = 1"
    by (auto simp: p_spectra_def dest: arg_cong[where f = length])
  have g: "given_linestyle kw_short = [''--'']" "given_colors kw_short = [Named ''r'']"
    "given_legend kw_short = [''a'']" "kw_colorMap kw_short = None"
    "kw_colorScheme kw_short = None"
    by (simp_all add: given_linestyle_def given_colors_def given_legend_def kw_short_def
          no_kwargs_def)
  note t = option_lists_never_out_of_range[of "[PyList (map (\<lambda>g. PyList (map Spectrum g)) ?gs)]"
             kw_short, THEN conjunct2, THEN conjunct2, THEN conjunct2, rule_format, OF r,
             unfolded g pq]
  from t have cp: "\<forall>ii < length (p_curves p).
      c_linestyle (p_curves p ! ii) = (if ii < length [''--''] then [''--''] ! ii else ''steps'') \<and>
      c_color (p_curves p ! ii)
        = (if ii < length [Named ''r''] then [Named ''r''] ! ii else Named ''k'')"
    and cq: "\<forall>ii < length (p_curves q).
      c_linestyle (p_curves q ! ii) = (if ii < length [''--''] then [''--''] ! ii else ''steps'') \<and>
      c_color (p_curves q ! ii)
        = (if ii < length [Named ''r''] then [Named ''r''] ! ii else Named ''k'')"
    by simp_all
  from t have cl: "\<forall>k < length (concat (map p_curves [p, q])).
      c_label (concat (map p_curves [p, q]) ! k) = (if k < length [''a''] then [''a''] ! k else [])"
    by blast
  have l1: "map c_linestyle (p_curves p) = [''--'', ''steps'']"
    using cp len(1) by (intro nth_equalityI) (auto simp: less_Suc_eq numeral_2_eq_2)
  have l2: "map c_linestyle (p_curves q) = [''--'']"
    using cq len(2) by (intro nth_equalityI) auto
  have c1: "map c_color (p_curves p) = [Named ''r'', Named ''k'']"
    using cp len(1) by (intro nth_equalityI) (auto simp: less_Suc_eq numeral_2_eq_2)
  have c2: "map c_color (p_curves q) = [Named ''r'']"
    using cq len(2) by (intro nth_equalityI) auto
  have lb: "map c_label (p_curves p @ p_curves q) = [''a'', [], []]"
  proof (rule nth_equalityI)
    show "length (map c_label (p_curves p @ p_curves q)) = length [''a'', [], [] :: string]"
      using len by simp
  next
    fix i assume "i < length (map c_label (p_curves p @ p_curves q))"
    then have i: "i < 3" using len by simp
    with cl[rule_format, of i] len
    have "c_label ((p_curves p @ p_curves q) ! i) = (if i < 1 then [''a''] ! i else [])" by simp
    moreover have "map c_label (p_curves p @ p_curves q) ! i
        = c_label ((p_curves p @ p_curves q) ! i)"
      using i len by (intro nth_map) simp
    ultimately have "map c_label (p_curves p @ p_curves q) ! i
        = (if i < 1 then [''a''] ! i else [])" by (simp only:)
    with i show "map c_label (p_curves p @ p_curves q) ! i = [''a'', [], [] :: string] ! i"
      by (auto simp del: map_append simp: less_Suc_eq numeral_3_eq_3)
  qed
  show ?thesis
    by (rule exI[of _ out], rule exI[of _ kw'], rule exI[of _ p], rule exI[of _ q])
       (intro conjI r pq(1) l1 l2 c1 c2 lb)
qed

theorem flat_list_with_multiplot_witness:
  "\<exists>out kw'. plotSpectrum [PyList (map Spectrum [s0, s0])] (no_kwargs\<lparr>kw_multiplot := Some True\<rparr>)
       = Inr (out, kw') \<and>
     map p_spectra (o_plots out) = [[s0], [s0]]"
proof -
  let ?kw = "no_kwargs\<lparr>kw_multiplot := Some True\<rparr>"
  have "\<exists>out kw'. plotSpectrum [PyList (map Spectrum [s0, s0])] ?kw = Inr (out, kw') \<and>
          map p_spectra (o_plots out) = [[s0], [s0]]"
    by (rule plotSpectrum_list_total[where m = True])
       (simp_all add: no_kwargs_def setup_multiplot_def get_multilayout_def)
  then obtain out kw' where
    r: "plotSpectrum [PyList (map Spectrum [s0, s0])] ?kw = Inr (out, kw')" by blast
  have "map p_spectra (o_plots out) = map (\<lambda>s. [s]) [s0, s0]"
    by (rule flat_list_with_multiplot[OF _ _ r]) (simp_all add: no_kwargs_def)
  with r show ?thesis by auto
qed

theorem sequence_of_sequences_witness:
  "setup_multiplot (kwget False (kw_multiplot no_kwargs))
     (map (\<lambda>g. PyList (map Spectrum g)) [[s0, s0], [s0]])
   = Inr (True, map (\<lambda>g. PyList (map Spectrum g)) [[s0, s0], [s0]]) \<and>
   (\<exists>out kw'. plotSpectrum [PyList (map (\<lambda>g. PyList (map Spectrum g)) [[s0, s0], [s0]])] no_kwargs
       = Inr (out, kw') \<and>
     map p_spectra (o_plots out) = [[s0, s0], [s0]])"
proof -
  let ?gs = "[[s0, s0], [s0]]"
  have ne: "?gs \<noteq> []" by simp
  note t = sequence_of_sequences[OF ne, of no_kwargs]
  have "\<exists>out kw'. plotSpectrum [PyList (map (\<lambda>g. PyList (map Spectrum g)) ?gs)] no_kwargs
          = Inr (out, kw') \<and> map p_spectra (o_plots out) = ?gs"
    by (rule plotSpectrum_list_total[where m = True])
       (simp_all add: no_kwargs_def setup_multiplot_def get_multilayout_def)
  then obtain out kw' where
    r: "plotSpectrum [PyList (map (\<lambda>g. PyList (map Spectrum g)) ?gs)] no_kwargs = Inr (out, kw')"
    by blast
  from t r have "map p_spectra (o_plots out) = ?gs" by blast
  with t r show ?thesis by auto
qed

theorem separate_arguments_filtered_witness:
  "\<exists>out kw'. plotSpectrum [Spectrum s0, Other, Spectrum s0] no_kwargs = Inr (out, kw') \<and>
     o_ignored out = [Other] \<and>
     read_args [Spectrum s0, Other, Spectrum s0] = Some ([Spectrum s0, Spectrum s0], [Other])"
proof -
  let ?args = "[Spectrum s0, Other, Spectrum s0]"
  have "\<exists>out kw'. plotSpectrum [PyList (map Spectrum [s0, s0])] no_kwargs = Inr (out, kw') \<and>
          map p_spectra (o_plots out) = [[s0, s0]]"
    by (rule plotSpectrum_list_total[where m = False])
       (simp_all add: no_kwargs_def setup_multiplot_def get_multilayout_def)
  then obtain out kw' where
    r: "plotSpectrum [PyList [Spectrum s0, Spectrum s0]] no_kwargs = Inr (out, kw')" by auto
  have "\<not> (length ?args = 1 \<and> is_list (?args ! 0))"
    and "filter (\<lambda>a. is_Spectrum a \<or> is_list a) ?args \<noteq> []" by simp_all
  from separate_arguments_filtered[OF this, of no_kwargs] r
  show ?thesis by simp
qed

theorem short_noise_list_padded_with_True_witness:
  "\<exists>out kw' p. plotSpectrum [PyList (map Spectrum [s0, s0])]
                  (no_kwargs\<lparr>kw_uncertainty := Some (Flags [False])\<rparr>) = Inr (out, kw') \<and>
     o_plots out = [p] \<and> length (p_curves p) = 2 \<and>
     c_noise (p_curves p ! 0) = None \<and> c_noise (p_curves p ! 1) \<noteq> None"
proof -
  let ?kw = "no_kwargs\<lparr>kw_uncertainty := Some (Flags [False])\<rparr>"
  have "\<exists>out kw'. plotSpectrum [PyList (map Spectrum [s0, s0])] ?kw = Inr (out, kw') \<and>
          map p_spectra (o_plots out) = [[s0, s0]]"
    by (rule plotSpectrum_list_total[where m = False])
       (simp_all add: no_kwargs_def setup_multiplot_def get_multilayout_def)
  then obtain out kw' where
    r: "plotSpectrum [PyList (map Spectrum [s0, s0])] ?kw = Inr (out, kw')" and
    m: "map p_spectra (o_plots out) = [[s0, s0]]" by (elim exE conjE)
  from m obtain p where p: "o_plots out = [p]" "p_spectra p = [s0, s0]"
    by (auto simp: map_eq_Cons_conv)
  then have len: "length (p_curves p) = 2" and mem: "p \<in> set (o_plots out)"
    by (auto simp: p_spectra_def dest: arg_cong[where f = length])
  have k: "kw_uncertainty ?kw \<noteq> None \<or> kw_noise ?kw \<noteq> None \<or> kw_showNoise ?kw \<noteq> None"
    "get_showNoise ?kw 0 = Flags [False]"
    by (simp_all add: get_showNoise_def no_kwargs_def)
  have "0 < length (p_curves p)" "1 < length (p_curves p)" using len by simp_all
  note lt = this
  note t0 = short_noise_list_padded_with_True[OF r mem lt(1), of "[False]", THEN conjunct1,
              rule_format, OF conjI[OF k(1) k(2)]]
  note t1 = short_noise_list_padded_with_True[OF r mem lt(2), of "[False]", THEN conjunct1,
              rule_format, OF conjI[OF k(1) k(2)]]
  from t0 have "\<not> (c_noise (p_curves p ! 0) \<noteq> None)" by (simp del: not_None_eq)
  then have c0: "c_noise (p_curves p ! 0) = None" by blast
  from t1 have c1: "c_noise (p_curves p ! 1) \<noteq> None" by simp
  show ?thesis
    by (rule exI[of _ out], rule exI[of _ kw'], rule exI[of _ p]) (intro conjI r p(1) len c0 c1)
qed

theorem pagination_witness:
  "\<exists>out kw'. plotSpectrum [PyList (map Spectrum [s0, s0, s0])] kw_pages = Inr (out, kw') \<and>
     length (o_plots out) = 3 \<and> o_pages out = 2 \<and>
     map p_dest (o_plots out) = [OnPage 0 0, OnPage 0 1, OnPage 1 0]"
proof -
  have ml: "get_multilayout kw_pages = 1 # 2 # []" and mp: "kw_multipage kw_pages = Some True"
    and ft: "get_filetype kw_pages = ''pdf''"
    by (simp_all add: kw_pages_def no_kwargs_def get_multilayout_def get_filetype_def
          get_filename_def)
  have "\<exists>out kw'. plotSpectrum [PyList (map Spectrum [s0, s0, s0])] kw_pages = Inr (out, kw') \<and>
          map p_spectra (o_plots out) = [[s0], [s0], [s0]]"
    by (rule plotSpectrum_list_total[where m = True])
       (simp_all add: ml mp ft, simp_all add: kw_pages_def no_kwargs_def setup_multiplot_def)
  then obtain out kw' where
    r: "plotSpectrum [PyList (map Spectrum [s0, s0, s0])] kw_pages = Inr (out, kw')" and
    m: "map p_spectra (o_plots out) = [[s0], [s0], [s0]]" by (elim exE conjE)
  from m have len: "length (o_plots out) = 3" by (auto dest: arg_cong[where f = length])
  from pagination[OF mp ml _ _ r] len
  have pg: "int (o_pages out) = \<lceil>real 3 / real_of_int (1 * 2)\<rceil>"
    and d: "\<forall>i < 3. p_dest (o_plots out ! i) = OnPage (i div nat (1 * 2)) (int i mod (1 * 2))"
    by simp_all
  have "\<lceil>real 3 / real_of_int (1 * 2)\<rceil> = 2" by simp
  with pg have pages: "o_pages out = 2" by simp
  have "map p_dest (o_plots out) = [OnPage 0 0, OnPage 0 1, OnPage 1 0]"
  proof (rule nth_equalityI)
    show "length (map p_dest (o_plots out)) = length [OnPage 0 0, OnPage 0 1, OnPage 1 0]"
      using len by simp
    fix i assume "i < length (map p_dest (o_plots out))"
    then have "i = 0 \<or> i = 1 \<or> i = 2" using len by auto
    then show "map p_dest (o_plots out) ! i = [OnPage 0 0, OnPage 0 1, OnPage 1 0] ! i"
      using d len by auto
  qed
  note dests = this
  show ?thesis
    by (rule exI[of _ out], rule exI[of _ kw']) (intro conjI r len pages dests)
qed

end
